theory Spec2Isabelle
  imports Main "HOL-Library.Word" "HOL-Library.Log_Nat"
begin

section \<open>JavaScript strings\<close>

text \<open>
  A JavaScript string is a sequence of UTF-16 code units. String literals of the
  worker are written \<open>js ''...''\<close>; all of them are ASCII.
\<close>

type_synonym jschar = "16 word"
type_synonym jsstring = "jschar list"

definition js :: "string \<Rightarrow> jsstring" where
  "js s = map of_char s"

text \<open>\<open>String.prototype.startsWith\<close>, \<open>endsWith\<close> and \<open>includes\<close>.\<close>

definition startsWith :: "jsstring \<Rightarrow> jsstring \<Rightarrow> bool" where
  "startsWith s p = (take (length p) s = p)"

definition endsWith :: "jsstring \<Rightarrow> jsstring \<Rightarrow> bool" where
  "endsWith s p = (length p \<le> length s \<and> drop (length s - length p) s = p)"

fun str_includes :: "jsstring \<Rightarrow> jsstring \<Rightarrow> bool" where
  "str_includes [] p = (p = [])"
| "str_includes (c # cs) p = (startsWith (c # cs) p \<or> str_includes cs p)"

text \<open>
  The code units that \<open>String.prototype.trim\<close>, the regular expression class
  \<open>\s\<close> and \<open>parseInt\<close> treat as white space: ECMAScript's WhiteSpace and
  LineTerminator productions.
\<close>

definition is_whitespace :: "jschar \<Rightarrow> bool" where
  "is_whitespace c =
     (c = 0x9 \<or> c = 0xA \<or> c = 0xB \<or> c = 0xC \<or> c = 0xD \<or> c = 0x20 \<or> c = 0xA0
      \<or> c = 0x1680 \<or> (0x2000 \<le> c \<and> c \<le> 0x200A) \<or> c = 0x2028 \<or> c = 0x2029
      \<or> c = 0x202F \<or> c = 0x205F \<or> c = 0x3000 \<or> c = 0xFEFF)"

definition trim :: "jsstring \<Rightarrow> jsstring" where
  "trim s = rev (dropWhile is_whitespace (rev (dropWhile is_whitespace s)))"

definition is_digit :: "jschar \<Rightarrow> bool" where
  "is_digit c = (0x30 \<le> c \<and> c \<le> 0x39)"

text \<open>The number that a run of decimal digits writes.\<close>

definition digits_value :: "jsstring \<Rightarrow> nat" where
  "digits_value Z = foldl (\<lambda>acc c. 10 * acc + unat (c - 0x30)) 0 Z"

text \<open>\<open>s.split(sep)\<close> for a separator of one code unit.\<close>

fun split_on :: "jschar \<Rightarrow> jsstring \<Rightarrow> jsstring list" where
  "split_on sep [] = [[]]"
| "split_on sep (c # cs) =
     (if c = sep then [] # split_on sep cs
      else (case split_on sep cs of
              p # ps \<Rightarrow> (c # p) # ps
            | [] \<Rightarrow> [[c]]))"

section \<open>Regular expressions\<close>

text \<open>
  The regular expressions of the worker use character classes, the anchors
  \<open>^\<close> and \<open>$\<close> (without the multiline flag), sequence, alternation and the greedy
  quantifiers \<open>*\<close>, \<open>+\<close> and \<open>?\<close>. \<open>rmatch r n s\<close> lists, in the order in which
  the backtracking matcher of ECMAScript tries them, the remainders of \<open>s\<close> after a
  match of \<open>r\<close> at the front of \<open>s\<close>; \<open>n\<close> is the length of the whole input, so that
  \<open>^\<close> matches exactly where nothing has been consumed. An iteration of \<open>*\<close> that
  consumes nothing is rejected, as RepeatMatcher does.
\<close>

datatype regex =
    Chr "jschar \<Rightarrow> bool"
  | Eps
  | Bol
  | Eol
  | Seq regex regex
  | Alt regex regex
  | Star regex

fun rmatch :: "regex \<Rightarrow> nat \<Rightarrow> jsstring \<Rightarrow> jsstring list" where
  "rmatch (Chr P) n s = (case s of [] \<Rightarrow> [] | c # cs \<Rightarrow> if P c then [cs] else [])"
| "rmatch Eps n s = [s]"
| "rmatch Bol n s = (if length s = n then [s] else [])"
| "rmatch Eol n s = (if s = [] then [s] else [])"
| "rmatch (Seq a b) n s = concat (map (rmatch b n) (rmatch a n s))"
| "rmatch (Alt a b) n s = rmatch a n s @ rmatch b n s"
| "rmatch (Star a) n s =
     concat (map (\<lambda>t. if length t < length s then rmatch (Star a) n t else [])
                 (rmatch a n s)) @ [s]"

declare rmatch.simps(7) [simp del]

definition Plus :: "regex \<Rightarrow> regex" where
  "Plus r = Seq r (Star r)"

definition Opt :: "regex \<Rightarrow> regex" where
  "Opt r = Alt r Eps"

text \<open>A literal, and a literal under the flag \<open>i\<close>. Every literal letter of the
  worker's patterns is ASCII, and in a pattern without the flag \<open>u\<close> an ASCII letter
  matches, ignoring case, its two ASCII forms only.\<close>

definition lit :: "jsstring \<Rightarrow> regex" where
  "lit s = foldr (\<lambda>c r. Seq (Chr (\<lambda>x. x = c)) r) s Eps"

definition fold_case :: "jschar \<Rightarrow> jschar" where
  "fold_case c = (if 0x61 \<le> c \<and> c \<le> 0x7A then c - 0x20 else c)"

definition lit_i :: "jsstring \<Rightarrow> regex" where
  "lit_i s = foldr (\<lambda>c r. Seq (Chr (\<lambda>x. x = c \<or> (x < 0x80 \<and> fold_case x = fold_case c))) r) s Eps"

text \<open>The first match of \<open>r\<close> in the input, searching from the left: the suffix at
  which the match starts and the remainder after it.\<close>

fun regex_search :: "regex \<Rightarrow> nat \<Rightarrow> jsstring \<Rightarrow> (jsstring \<times> jsstring) option" where
  "regex_search r n [] = (case rmatch r n [] of t # _ \<Rightarrow> Some ([], t) | [] \<Rightarrow> None)"
| "regex_search r n (c # cs) =
     (case rmatch r n (c # cs) of t # _ \<Rightarrow> Some (c # cs, t) | [] \<Rightarrow> regex_search r n cs)"

text \<open>\<open>r.test(s)\<close> and \<open>s.replace(r, repl)\<close> for a pattern without the flag \<open>g\<close>
  and a replacement without \<open>$\<close>.\<close>

definition regex_test :: "regex \<Rightarrow> jsstring \<Rightarrow> bool" where
  "regex_test r s = (regex_search r (length s) s \<noteq> None)"

definition regex_replace :: "regex \<Rightarrow> jsstring \<Rightarrow> jsstring \<Rightarrow> jsstring" where
  "regex_replace r repl s =
     (case regex_search r (length s) s of
        None \<Rightarrow> s
      | Some (m, t) \<Rightarrow> take (length s - length m) s @ repl @ t)"

text \<open>
  \<open>s.split(r)\<close>: the pattern is tried at each position \<open>q\<close> in turn; a match that
  ends where the current piece starts (an empty match at its start) is skipped.
  \<open>cur\<close> is the piece read so far. Every remainder of a match is no longer than the
  input, which makes the loop end.
\<close>

lemma rmatch_length: "t \<in> set (rmatch r n s) \<Longrightarrow> length t \<le> length s"
proof (induction r n s arbitrary: t rule: rmatch.induct)
  case (1 P n s)
  then show ?case by (auto split: list.splits if_splits)
next
  case (5 a b n s)
  then show ?case by (fastforce)
next
  case (7 a n s)
  from "7.prems" have "t = s \<or> (\<exists>u\<in>set (rmatch a n s). length u < length s \<and> t \<in> set (rmatch (Star a) n u))"
    by (subst (asm) rmatch.simps(7)) (auto split: if_splits)
  then show ?case
  proof
    assume "t = s" then show ?thesis by simp
  next
    assume "\<exists>u\<in>set (rmatch a n s). length u < length s \<and> t \<in> set (rmatch (Star a) n u)"
    then obtain u where u: "u \<in> set (rmatch a n s)" "length u < length s" "t \<in> set (rmatch (Star a) n u)"
      by blast
    from "7.IH"(2) [OF u(1) u(2) u(3)] u(2) show ?thesis by simp
  qed
qed (auto split: if_splits)

function split_loop :: "regex \<Rightarrow> nat \<Rightarrow> jsstring \<Rightarrow> jsstring \<Rightarrow> jsstring list" where
  "split_loop r n cur [] = [cur]"
| "split_loop r n cur (c # cs) =
     (case rmatch r n (c # cs) of
        [] \<Rightarrow> split_loop r n (cur @ [c]) cs
      | t # _ \<Rightarrow>
          if length t = length (c # cs) \<and> cur = [] then split_loop r n (cur @ [c]) cs
          else cur # split_loop r n [] t)"
  by pat_completeness auto
termination
proof (relation "measure (\<lambda>(r, n, cur, rest). 2 * length rest + (if cur = [] then 0 else 1))", goal_cases)
  case 1 show ?case by simp
next
  case (2 r n cur c cs) then show ?case by simp
next
  case (3 r n cur c cs t ts) then show ?case by simp
next
  case (4 r n cur c cs t ts)
  have "t \<in> set (rmatch r n (c # cs))" using 4(1) by simp
  then have "length t \<le> length (c # cs)" by (rule rmatch_length)
  with 4(2) show ?case by auto
qed

definition regex_split :: "regex \<Rightarrow> jsstring \<Rightarrow> jsstring list" where
  "regex_split r s =
     (if s = [] then (if rmatch r 0 [] = [] then [[]] else [])
      else split_loop r (length s) [] s)"


section \<open>Values, responses and thrown values\<close>

text \<open>
  The JavaScript values that the worker passes to \<open>JSON.stringify\<close> or reads from
  \<open>JSON.parse\<close>. An object is the list of its own properties in insertion order.
  \<open>json(data, status)\<close> builds the response whose body is
  \<open>JSON.stringify(data, null, 2)\<close>; the model keeps \<open>data\<close> itself as the body.
\<close>

datatype jsvalue =
    Undefined
  | Null
  | Boolean bool
  | Number int
  | Str jsstring
  | Arr "jsvalue list"
  | Obj "(jsstring \<times> jsvalue) list"
  | Builtin

record response =
  status :: nat
  body :: jsvalue

definition json :: "jsvalue \<Rightarrow> nat \<Rightarrow> response" where
  "json data st = \<lparr>status = st, body = data\<rparr>"

text \<open>A thrown value is an \<open>Error\<close> with its message, or another value, given by
  what \<open>String(error)\<close> returns for it.\<close>

datatype thrown =
    Error jsstring
  | NonError jsstring

definition error_message :: "thrown \<Rightarrow> jsstring" where
  "error_message e = (case e of Error m \<Rightarrow> m | NonError rendering \<Rightarrow> rendering)"

definition and_then :: "thrown + 'a \<Rightarrow> ('a \<Rightarrow> thrown + 'b) \<Rightarrow> thrown + 'b" where
  "and_then r f = (case r of Inl e \<Rightarrow> Inl e | Inr v \<Rightarrow> f v)"

text \<open>
  Reading a property. A plain object inherits the properties of
  \<open>Object.prototype\<close>, which are functions or objects (\<open>Builtin\<close>); so do the
  other values, and none of the property names that the worker reads from a
  string, number, boolean or array is defined by their own prototypes. Reading a
  property of \<open>undefined\<close> or \<open>null\<close> throws a \<open>TypeError\<close> (the messages are those
  of the V8 engine).
\<close>

definition object_prototype_keys :: "jsstring list" where
  "object_prototype_keys =
     map js [''constructor'', ''__defineGetter__'', ''__defineSetter__'', ''hasOwnProperty'',
             ''__lookupGetter__'', ''__lookupSetter__'', ''isPrototypeOf'',
             ''propertyIsEnumerable'', ''toString'', ''valueOf'', ''__proto__'',
             ''toLocaleString'']"

definition inherited :: "jsstring \<Rightarrow> jsvalue" where
  "inherited k = (if k \<in> set object_prototype_keys then Builtin else Undefined)"

definition cannot_read :: "jsvalue \<Rightarrow> jsstring \<Rightarrow> thrown" where
  "cannot_read v k =
     Error (js ''Cannot read properties of ''
            @ (case v of Null \<Rightarrow> js ''null'' | _ \<Rightarrow> js ''undefined'')
            @ js '' (reading ''  @ [0x27] @ k @ [0x27] @ js '')'')"

definition get_prop :: "jsvalue \<Rightarrow> jsstring \<Rightarrow> thrown + jsvalue" where
  "get_prop v k =
     (case v of
        Undefined \<Rightarrow> Inl (cannot_read v k)
      | Null \<Rightarrow> Inl (cannot_read v k)
      | Obj kvs \<Rightarrow> Inr (case map_of kvs k of Some x \<Rightarrow> x | None \<Rightarrow> inherited k)
      | _ \<Rightarrow> Inr (inherited k))"

text \<open>\<open>v?.k\<close>, truthiness, \<open>typeof v === 'string'\<close> and \<open>a ?? b\<close>.\<close>

definition optional_prop :: "jsvalue \<Rightarrow> jsstring \<Rightarrow> jsvalue" where
  "optional_prop v k = (case get_prop v k of Inl _ \<Rightarrow> Undefined | Inr x \<Rightarrow> x)"

definition truthy :: "jsvalue \<Rightarrow> bool" where
  "truthy v =
     (case v of
        Undefined \<Rightarrow> False
      | Null \<Rightarrow> False
      | Boolean b \<Rightarrow> b
      | Number n \<Rightarrow> n \<noteq> 0
      | Str x \<Rightarrow> x \<noteq> []
      | _ \<Rightarrow> True)"

definition string_of :: "jsvalue \<Rightarrow> jsstring option" where
  "string_of v = (case v of Str x \<Rightarrow> Some x | _ \<Rightarrow> None)"

definition nullish_or :: "jsvalue \<Rightarrow> jsvalue \<Rightarrow> jsvalue" where
  "nullish_or a b = (case a of Undefined \<Rightarrow> b | Null \<Rightarrow> b | _ \<Rightarrow> a)"

section \<open>URL objects\<close>

text \<open>
  A \<open>URL\<close> object of the platform with a host (not an opaque path), as the URL
  Standard records it: \<open>protocol\<close> is the scheme with its \<open>:\<close>, \<open>port\<close> is empty for
  a null port (the parser nulls the scheme's default port), \<open>pathname\<close> is the
  serialised path, \<open>query\<close> and \<open>fragment\<close> are \<open>None\<close> when null. Parsing a string
  into a URL (\<open>new URL(s)\<close>, which throws a \<open>TypeError\<close> on failure) and parsing a
  host name (IDNA, IPv4 and IPv6 forms) are the platform's: \<open>new_URL\<close> and
  \<open>parse_host\<close> of a \<open>platform\<close>, \<open>None\<close> for failure. \<open>JSON_stringify\<close> is
  \<open>JSON.stringify\<close>.
\<close>

record url =
  protocol :: jsstring
  username :: jsstring
  password :: jsstring
  hostname :: jsstring
  port :: jsstring
  pathname :: jsstring
  query :: "jsstring option"
  fragment :: "jsstring option"

record platform =
  new_URL :: "jsstring \<Rightarrow> url option"
  parse_host :: "jsstring \<Rightarrow> jsstring option"
  JSON_stringify :: "jsvalue \<Rightarrow> jsstring"

definition invalid_url :: thrown where
  "invalid_url = Error (js ''Invalid URL string.'')"

definition is_special :: "jsstring \<Rightarrow> bool" where
  "is_special p =
     (p = js ''http:'' \<or> p = js ''https:'' \<or> p = js ''ws:'' \<or> p = js ''wss:''
      \<or> p = js ''ftp:'' \<or> p = js ''file:'')"

definition default_port :: "jsstring \<Rightarrow> jsstring" where
  "default_port p =
     (if p = js ''http:'' \<or> p = js ''ws:'' then js ''80''
      else if p = js ''https:'' \<or> p = js ''wss:'' then js ''443''
      else if p = js ''ftp:'' then js ''21''
      else [])"

text \<open>The getters \<open>search\<close>, \<open>hash\<close>, \<open>host\<close>, \<open>origin\<close> and \<open>href\<close> (which is also
  \<open>toString()\<close>).\<close>

definition search :: "url \<Rightarrow> jsstring" where
  "search u = (case query u of None \<Rightarrow> [] | Some q \<Rightarrow> if q = [] then [] else 0x3F # q)"

definition hash :: "url \<Rightarrow> jsstring" where
  "hash u = (case fragment u of None \<Rightarrow> [] | Some f \<Rightarrow> if f = [] then [] else 0x23 # f)"

definition host :: "url \<Rightarrow> jsstring" where
  "host u = (if port u = [] then hostname u else hostname u @ js '':'' @ port u)"

definition origin :: "url \<Rightarrow> jsstring" where
  "origin u =
     (if is_special (protocol u) \<and> protocol u \<noteq> js ''file:''
      then protocol u @ js ''//'' @ host u
      else js ''null'')"

definition href :: "url \<Rightarrow> jsstring" where
  "href u =
     protocol u @ js ''//''
     @ (if username u \<noteq> [] \<or> password u \<noteq> []
        then username u @ (if password u \<noteq> [] then js '':'' @ password u else []) @ js ''@''
        else [])
     @ host u @ pathname u
     @ (case query u of None \<Rightarrow> [] | Some q \<Rightarrow> 0x3F # q)
     @ (case fragment u of None \<Rightarrow> [] | Some f \<Rightarrow> 0x23 # f)"

subsection \<open>Percent-encoding\<close>

text \<open>The code points of a string as the URL parser receives it (a lone surrogate
  becomes U+FFFD), their UTF-8 bytes, and the percent-encoding of the code points
  that a set selects. Every percent-encode set holds all code points above
  \<open>~\<close>, so what is not encoded is one ASCII code unit.\<close>

definition is_high_surrogate :: "jschar \<Rightarrow> bool" where
  "is_high_surrogate c = (0xD800 \<le> c \<and> c \<le> 0xDBFF)"

definition is_low_surrogate :: "jschar \<Rightarrow> bool" where
  "is_low_surrogate c = (0xDC00 \<le> c \<and> c \<le> 0xDFFF)"

fun code_points :: "jsstring \<Rightarrow> nat option list" where
  "code_points [] = []"
| "code_points [c] =
     [if is_high_surrogate c \<or> is_low_surrogate c then None else Some (unat c)]"
| "code_points (c # d # cs) =
     (if is_high_surrogate c \<and> is_low_surrogate d
      then Some (0x10000 + (unat c - 0xD800) * 0x400 + (unat d - 0xDC00)) # code_points cs
      else (if is_high_surrogate c \<or> is_low_surrogate c then None else Some (unat c))
           # code_points (d # cs))"

definition utf8 :: "nat \<Rightarrow> nat list" where
  "utf8 cp =
     (if cp < 0x80 then [cp]
      else if cp < 0x800 then [0xC0 + cp div 0x40, 0x80 + cp mod 0x40]
      else if cp < 0x10000
        then [0xE0 + cp div 0x1000, 0x80 + cp div 0x40 mod 0x40, 0x80 + cp mod 0x40]
      else [0xF0 + cp div 0x40000, 0x80 + cp div 0x1000 mod 0x40,
            0x80 + cp div 0x40 mod 0x40, 0x80 + cp mod 0x40])"

definition hex_digit :: "nat \<Rightarrow> jschar" where
  "hex_digit d = (if d < 10 then 0x30 + of_nat d else 0x41 + of_nat (d - 10))"

definition percent_byte :: "nat \<Rightarrow> jsstring" where
  "percent_byte b = [0x25, hex_digit (b div 16), hex_digit (b mod 16)]"

definition percent_encode :: "(nat \<Rightarrow> bool) \<Rightarrow> jsstring \<Rightarrow> jsstring" where
  "percent_encode encode_set s =
     concat (map (\<lambda>p. let cp = (case p of None \<Rightarrow> 0xFFFD | Some x \<Rightarrow> x)
                       in if encode_set cp then concat (map percent_byte (utf8 cp))
                          else [of_nat cp])
                 (code_points s))"

definition c0_control_set :: "nat \<Rightarrow> bool" where
  "c0_control_set cp = (cp \<le> 0x1F \<or> 0x7E < cp)"

definition query_set :: "nat \<Rightarrow> bool" where
  "query_set cp =
     (c0_control_set cp \<or> cp = 0x20 \<or> cp = 0x22 \<or> cp = 0x23 \<or> cp = 0x3C \<or> cp = 0x3E)"

definition special_query_set :: "nat \<Rightarrow> bool" where
  "special_query_set cp = (query_set cp \<or> cp = 0x27)"

definition path_set :: "nat \<Rightarrow> bool" where
  "path_set cp =
     (query_set cp \<or> cp = 0x3F \<or> cp = 0x5E \<or> cp = 0x60 \<or> cp = 0x7B \<or> cp = 0x7D)"

definition strip_tab_newline :: "jsstring \<Rightarrow> jsstring" where
  "strip_tab_newline s = filter (\<lambda>c. c \<noteq> 0x9 \<and> c \<noteq> 0xA \<and> c \<noteq> 0xD) s"

subsection \<open>Setters\<close>

text \<open>
  Each setter runs the basic URL parser on the new value with a state override, on
  the URL as it stands. \<open>protocol\<close>: the scheme state; a change between a special
  and a non-special scheme is ignored, and a port equal to the new scheme's
  default becomes null.
\<close>

definition ascii_lower :: "jschar \<Rightarrow> jschar" where
  "ascii_lower c = (if 0x41 \<le> c \<and> c \<le> 0x5A then c + 0x20 else c)"

definition is_alpha :: "jschar \<Rightarrow> bool" where
  "is_alpha c = ((0x41 \<le> c \<and> c \<le> 0x5A) \<or> (0x61 \<le> c \<and> c \<le> 0x7A))"

definition is_scheme_char :: "jschar \<Rightarrow> bool" where
  "is_scheme_char c = (is_alpha c \<or> is_digit c \<or> c = 0x2B \<or> c = 0x2D \<or> c = 0x2E)"

definition set_protocol :: "url \<Rightarrow> jsstring \<Rightarrow> url" where
  "set_protocol u v =
     (let buffer = takeWhile (\<lambda>c. c \<noteq> 0x3A) (strip_tab_newline v);
          scheme = map ascii_lower buffer @ js '':''
      in if buffer = [] \<or> \<not> is_alpha (hd buffer) \<or> \<not> list_all is_scheme_char buffer then u
         else if is_special (protocol u) \<noteq> is_special scheme then u
         else if (username u \<noteq> [] \<or> password u \<noteq> [] \<or> port u \<noteq> [])
                 \<and> scheme = js ''file:'' then u
         else if protocol u = js ''file:'' \<and> hostname u = [] then u
         else u\<lparr>protocol := scheme,
                port := (if port u = default_port scheme then [] else port u)\<rparr>)"

text \<open>The decimal form of a number, as the serialiser writes a port.\<close>

fun decimal :: "nat \<Rightarrow> jsstring" where
  "decimal n = (if n < 10 then [0x30 + of_nat n]
                else decimal (n div 10) @ [0x30 + of_nat (n mod 10)])"

declare decimal.simps [simp del]

text \<open>\<open>port\<close>: ignored for a URL without a host or with the scheme \<open>file\<close>; the empty
  string nulls the port; otherwise the leading digits are read, a number above
  65535 is a failure, and the scheme's default port becomes null.\<close>

definition port_state :: "url \<Rightarrow> jsstring \<Rightarrow> url" where
  "port_state u input =
     (let buffer = takeWhile is_digit input in
      if buffer = [] then u
      else if 65535 < digits_value buffer then u
      else u\<lparr>port := (if decimal (digits_value buffer) = default_port (protocol u) then []
                       else decimal (digits_value buffer))\<rparr>)"

definition set_port :: "url \<Rightarrow> jsstring \<Rightarrow> url" where
  "set_port u v =
     (if hostname u = [] \<or> protocol u = js ''file:'' then u
      else if v = [] then u\<lparr>port := []\<rparr>
      else port_state u (strip_tab_newline v))"

text \<open>
  \<open>pathname\<close>: the path state. The value is cut at \<open>/\<close> (and \<open>\\<close> for a special
  scheme) into segments, each percent-encoded with the path set; a segment \<open>..\<close>
  removes the last segment kept so far, a segment \<open>.\<close> is dropped, and either, when
  last, leaves an empty segment. (The drive-letter rules of the scheme \<open>file\<close> are
  not modelled.)
\<close>

fun split_when :: "(jschar \<Rightarrow> bool) \<Rightarrow> jsstring \<Rightarrow> jsstring list" where
  "split_when P [] = [[]]"
| "split_when P (c # cs) =
     (if P c then [] # split_when P cs
      else (case split_when P cs of
              p # ps \<Rightarrow> (c # p) # ps
            | [] \<Rightarrow> [[c]]))"

definition is_single_dot :: "jsstring \<Rightarrow> bool" where
  "is_single_dot seg = (map ascii_lower seg = js ''.'' \<or> map ascii_lower seg = js ''%2e'')"

definition is_double_dot :: "jsstring \<Rightarrow> bool" where
  "is_double_dot seg =
     (map ascii_lower seg = js ''..'' \<or> map ascii_lower seg = js ''.%2e''
      \<or> map ascii_lower seg = js ''%2e.'' \<or> map ascii_lower seg = js ''%2e%2e'')"

fun path_state :: "jsstring list \<Rightarrow> jsstring list \<Rightarrow> jsstring list" where
  "path_state path [] = path"
| "path_state path (seg # segs) =
     (let buffer = percent_encode path_set seg in
      if is_double_dot buffer
        then path_state (if segs = [] then butlast path @ [[]] else butlast path) segs
      else if is_single_dot buffer
        then path_state (if segs = [] then path @ [[]] else path) segs
      else path_state (path @ [buffer]) segs)"

definition set_pathname :: "url \<Rightarrow> jsstring \<Rightarrow> url" where
  "set_pathname u v =
     (let special = is_special (protocol u);
          is_sep = (\<lambda>c. c = 0x2F \<or> (special \<and> c = 0x5C));
          input = strip_tab_newline v;
          rest = (case input of [] \<Rightarrow> [] | c # cs \<Rightarrow> if is_sep c then cs else c # cs);
          path = (if input = [] \<and> \<not> special then []
                  else path_state [] (split_when is_sep rest))
      in u\<lparr>pathname := concat (map (\<lambda>seg. 0x2F # seg) path)\<rparr>)"

text \<open>\<open>search\<close>: the empty string nulls the query; otherwise one leading \<open>?\<close> is
  dropped and the rest is percent-encoded with the query set of the scheme.\<close>

definition set_search :: "url \<Rightarrow> jsstring \<Rightarrow> url" where
  "set_search u v =
     (if v = [] then u\<lparr>query := None\<rparr>
      else
        let input = strip_tab_newline (if hd v = 0x3F then tl v else v) in
        u\<lparr>query := Some (percent_encode
                 (if is_special (protocol u) then special_query_set else query_set) input)\<rparr>)"

text \<open>
  \<open>host\<close>: the host state. The value is read up to its first \<open>:\<close> outside square
  brackets, or up to \<open>/\<close>, \<open>?\<close>, \<open>#\<close> (and \<open>\\<close> for a special scheme) or its end. The
  host name read is parsed and stored; only after a \<open>:\<close> is a port read, by the
  port state. A value without \<open>:\<close> leaves the port of the URL as it was.
\<close>

fun host_scan :: "bool \<Rightarrow> bool \<Rightarrow> jsstring \<Rightarrow> jsstring \<times> jsstring option" where
  "host_scan special inside [] = ([], None)"
| "host_scan special inside (c # cs) =
     (if c = 0x3A \<and> \<not> inside then ([], Some cs)
      else if c = 0x2F \<or> c = 0x3F \<or> c = 0x23 \<or> (special \<and> c = 0x5C) then ([], None)
      else
        let inside' = (if c = 0x5B then True else if c = 0x5D then False else inside);
            (buffer, rest) = host_scan special inside' cs
        in (c # buffer, rest))"

definition set_host :: "platform \<Rightarrow> url \<Rightarrow> jsstring \<Rightarrow> url" where
  "set_host pf u v =
     (let special = is_special (protocol u);
          input = strip_tab_newline v;
          (buffer, rest) =
            (if protocol u = js ''file:''
             then (takeWhile (\<lambda>c. \<not> (c = 0x2F \<or> c = 0x3F \<or> c = 0x23 \<or> c = 0x5C)) input, None)
             else host_scan special False input)
      in case rest of
           Some after_colon \<Rightarrow>
             if buffer = [] then u
             else (case parse_host pf buffer of
                     None \<Rightarrow> u
                   | Some h \<Rightarrow> port_state (u\<lparr>hostname := h\<rparr>) after_colon)
         | None \<Rightarrow>
             if special \<and> buffer = [] \<and> protocol u \<noteq> js ''file:'' then u
             else if buffer = [] \<and> (username u \<noteq> [] \<or> password u \<noteq> [] \<or> port u \<noteq> []) then u
             else (case parse_host pf buffer of
                     None \<Rightarrow> u
                   | Some h \<Rightarrow>
                       u\<lparr>hostname := (if protocol u = js ''file:'' \<and> h = js ''localhost''
                                       then [] else h)\<rparr>))"

subsection \<open>\<open>encodeURIComponent\<close> and \<open>decodeURIComponent\<close>\<close>

definition uri_malformed :: thrown where
  "uri_malformed = Error (js ''URI malformed'')"

definition uri_unreserved :: "nat \<Rightarrow> bool" where
  "uri_unreserved cp =
     ((0x41 \<le> cp \<and> cp \<le> 0x5A) \<or> (0x61 \<le> cp \<and> cp \<le> 0x7A) \<or> (0x30 \<le> cp \<and> cp \<le> 0x39)
      \<or> cp = 0x2D \<or> cp = 0x5F \<or> cp = 0x2E \<or> cp = 0x21 \<or> cp = 0x7E \<or> cp = 0x2A
      \<or> cp = 0x27 \<or> cp = 0x28 \<or> cp = 0x29)"

text \<open>\<open>encodeURIComponent\<close> throws a \<open>URIError\<close> on a lone surrogate.\<close>

definition encodeURIComponent :: "jsstring \<Rightarrow> thrown + jsstring" where
  "encodeURIComponent s =
     (if None \<in> set (code_points s) then Inl uri_malformed
      else Inr (concat (map (\<lambda>p. case p of
                               None \<Rightarrow> []
                             | Some cp \<Rightarrow> if uri_unreserved cp then [of_nat cp]
                                         else concat (map percent_byte (utf8 cp)))
                            (code_points s))))"

definition unhex :: "jschar \<Rightarrow> nat option" where
  "unhex c =
     (if 0x30 \<le> c \<and> c \<le> 0x39 then Some (unat c - 0x30)
      else if 0x41 \<le> c \<and> c \<le> 0x46 then Some (unat c - 0x41 + 10)
      else if 0x61 \<le> c \<and> c \<le> 0x66 then Some (unat c - 0x61 + 10)
      else None)"

text \<open>The byte that two hexadecimal digits at the front of a string write.\<close>

definition hex2 :: "jsstring \<Rightarrow> nat option" where
  "hex2 s =
     (case s of
        a # b # _ \<Rightarrow> (case (unhex a, unhex b) of
                        (Some x, Some y) \<Rightarrow> Some (16 * x + y)
                      | _ \<Rightarrow> None)
      | _ \<Rightarrow> None)"

text \<open>\<open>k\<close> further escapes \<open>%XX\<close> at the front of a string.\<close>

fun escaped_bytes :: "nat \<Rightarrow> jsstring \<Rightarrow> nat list option" where
  "escaped_bytes 0 s = Some []"
| "escaped_bytes (Suc k) s =
     (case s of
        [] \<Rightarrow> None
      | c # cs \<Rightarrow>
          if c \<noteq> 0x25 then None
          else (case hex2 cs of
                  None \<Rightarrow> None
                | Some b \<Rightarrow> (case escaped_bytes k (drop 2 cs) of
                              None \<Rightarrow> None
                            | Some bs \<Rightarrow> Some (b # bs))))"

definition leading_ones :: "nat \<Rightarrow> nat" where
  "leading_ones b =
     (if b < 0x80 then 0 else if b < 0xC0 then 1 else if b < 0xE0 then 2
      else if b < 0xF0 then 3 else if b < 0xF8 then 4 else 5)"

definition is_continuation :: "nat \<Rightarrow> bool" where
  "is_continuation b = (0x80 \<le> b \<and> b < 0xC0)"

text \<open>The code point of a well-formed UTF-8 sequence of two to four bytes.\<close>

definition utf8_decode :: "nat list \<Rightarrow> nat option" where
  "utf8_decode bs =
     (case bs of
        [a, b] \<Rightarrow>
          let cp = (a - 0xC0) * 0x40 + (b - 0x80) in
          if is_continuation b \<and> 0x80 \<le> cp then Some cp else None
      | [a, b, c] \<Rightarrow>
          let cp = (a - 0xE0) * 0x1000 + (b - 0x80) * 0x40 + (c - 0x80) in
          if is_continuation b \<and> is_continuation c \<and> 0x800 \<le> cp
             \<and> \<not> (0xD800 \<le> cp \<and> cp \<le> 0xDFFF) then Some cp else None
      | [a, b, c, d] \<Rightarrow>
          let cp = (a - 0xF0) * 0x40000 + (b - 0x80) * 0x1000 + (c - 0x80) * 0x40 + (d - 0x80) in
          if is_continuation b \<and> is_continuation c \<and> is_continuation d
             \<and> 0x10000 \<le> cp \<and> cp \<le> 0x10FFFF then Some cp else None
      | _ \<Rightarrow> None)"

definition utf16 :: "nat \<Rightarrow> jsstring" where
  "utf16 cp =
     (if cp < 0x10000 then [of_nat cp]
      else [0xD800 + of_nat ((cp - 0x10000) div 0x400),
            0xDC00 + of_nat ((cp - 0x10000) mod 0x400)])"

text \<open>\<open>decodeURIComponent\<close>; \<open>None\<close> is the \<open>URIError\<close>.\<close>

fun decode_uri :: "jsstring \<Rightarrow> jsstring option" where
  "decode_uri [] = Some []"
| "decode_uri (c # cs) =
     (if c \<noteq> 0x25 then map_option (\<lambda>r. c # r) (decode_uri cs)
      else (case hex2 cs of
              None \<Rightarrow> None
            | Some b \<Rightarrow>
                if b < 0x80 then map_option (\<lambda>r. of_nat b # r) (decode_uri (drop 2 cs))
                else if leading_ones b = 1 \<or> 4 < leading_ones b then None
                else (case escaped_bytes (leading_ones b - 1) (drop 2 cs) of
                        None \<Rightarrow> None
                      | Some bs \<Rightarrow>
                          (case utf8_decode (b # bs) of
                             None \<Rightarrow> None
                           | Some cp \<Rightarrow>
                               map_option (\<lambda>r. utf16 cp @ r)
                                 (decode_uri (drop (2 + 3 * (leading_ones b - 1)) cs))))))"

definition decodeURIComponent :: "jsstring \<Rightarrow> thrown + jsstring" where
  "decodeURIComponent s = (case decode_uri s of None \<Rightarrow> Inl uri_malformed | Some r \<Rightarrow> Inr r)"

section \<open>Preview host names\<close>

text \<open>\<open>/^\d+-/\<close>\<close>

definition re_digits_dash :: regex where
  "re_digits_dash = Seq Bol (Seq (Plus (Chr is_digit)) (Chr (\<lambda>c. c = 0x2D)))"

definition isLikelyPreviewHostname :: "jsstring \<Rightarrow> bool" where
  "isLikelyPreviewHostname name =
     (regex_test re_digits_dash name \<and> endsWith name (js ''.localhost''))"

definition isLocalHostname :: "jsstring \<Rightarrow> bool" where
  "isLocalHostname name =
     (name = js ''localhost'' \<or> endsWith name (js ''.localhost'')
      \<or> name = js ''127.0.0.1'')"

text \<open>\<open>splitHostAndPort\<close>: the first two pieces of \<open>hostValue.split(':')\<close>; the
  port is \<open>undefined\<close> when there is no second piece.\<close>

definition splitHostAndPort :: "jsstring \<Rightarrow> jsstring \<times> jsstring option" where
  "splitHostAndPort hostValue =
     (case split_on 0x3A hostValue of
        [] \<Rightarrow> ([], None)
      | [name] \<Rightarrow> (name, None)
      | name # port_value # _ \<Rightarrow> (name, Some port_value))"

text \<open>The flag \<open>previewCandidate\<close> of the \<open>fetch\<close> handler, from the parsed request
  URL and the value of \<open>request.headers.get('host')\<close> (\<open>None\<close> for \<open>null\<close>).\<close>

definition previewCandidate :: "url \<Rightarrow> jsstring option \<Rightarrow> bool" where
  "previewCandidate u header =
     (let hostHeader = (case header of None \<Rightarrow> [] | Some h \<Rightarrow> h);
          hostHeaderName = fst (splitHostAndPort hostHeader)
      in isLikelyPreviewHostname (hostname u) \<or> isLikelyPreviewHostname hostHeaderName)"

section \<open>Preview URLs\<close>

definition LOCAL_PREVIEW_PROXY_PREFIX :: jsstring where
  "LOCAL_PREVIEW_PROXY_PREFIX = js ''/__sandbox_preview''"

definition normalizeLocalPreviewUrl :: "platform \<Rightarrow> jsstring \<Rightarrow> jsstring \<Rightarrow> thrown + jsstring" where
  "normalizeLocalPreviewUrl pf exposedUrl requestUrl =
     (case new_URL pf requestUrl of
        None \<Rightarrow> Inl invalid_url
      | Some request \<Rightarrow>
          (case new_URL pf exposedUrl of
             None \<Rightarrow> Inl invalid_url
           | Some preview \<Rightarrow>
               if \<not> isLocalHostname (hostname request) \<or> \<not> isLocalHostname (hostname preview)
               then Inr exposedUrl
               else
                 let preview = set_protocol preview (protocol request);
                     preview = (if port request \<noteq> [] then set_port preview (port request)
                                else preview)
                 in Inr (href preview)))"

definition forcePreviewIndexUrl :: "platform \<Rightarrow> jsstring \<Rightarrow> thrown + jsstring" where
  "forcePreviewIndexUrl pf previewUrl =
     (case new_URL pf previewUrl of
        None \<Rightarrow> Inl invalid_url
      | Some u \<Rightarrow>
          Inr (href (if pathname u = js ''/'' \<or> pathname u = []
                     then set_pathname u (js ''/index.html'') else u)))"

text \<open>\<open>buildLocalPreviewFallbackUrl\<close>: \<open>Inr None\<close> is the result \<open>undefined\<close>.
  \<open>fallback_url\<close> is its object \<open>fallback\<close> after the two assignments, to \<open>pathname\<close>
  and to \<open>search\<close>, that follow the encoding of the preview host.\<close>

definition fallback_url :: "url \<Rightarrow> url \<Rightarrow> jsstring \<Rightarrow> url" where
  "fallback_url base preview encodedHost =
     (let fallback = set_pathname base
            (LOCAL_PREVIEW_PROXY_PREFIX @ js ''/'' @ encodedHost @ pathname preview);
          fallback = set_search fallback (search preview)
      in fallback)"

definition buildLocalPreviewFallbackUrl ::
  "platform \<Rightarrow> jsstring \<Rightarrow> jsstring \<Rightarrow> thrown + jsstring option" where
  "buildLocalPreviewFallbackUrl pf previewUrl requestUrl =
     (case new_URL pf requestUrl of
        None \<Rightarrow> Inl invalid_url
      | Some request \<Rightarrow>
          (case new_URL pf previewUrl of
             None \<Rightarrow> Inl invalid_url
           | Some preview \<Rightarrow>
               if \<not> isLocalHostname (hostname request) \<or> \<not> isLocalHostname (hostname preview)
               then Inr None
               else
                 (case new_URL pf (origin request) of
                    None \<Rightarrow> Inl invalid_url
                  | Some fallback \<Rightarrow>
                      (case encodeURIComponent (host preview) of
                         Inl e \<Rightarrow> Inl e
                       | Inr encodedHost \<Rightarrow>
                           Inr (Some (href (fallback_url fallback preview encodedHost)))))))"

text \<open>
  \<open>handleLocalPreviewProxyRoute\<close>, from the request's URL string and the parsed
  \<open>url\<close>. \<open>localPreviewProxyTarget\<close> is its first part: \<open>Inr None\<close> when the path
  does not start with the prefix, else the \<open>proxyTarget\<close> it builds together with
  \<open>previewHost\<close> and \<open>proxiedPath\<close>. \<open>proxyToSandbox\<close> is the platform's answer for
  the request sent to the target, \<open>None\<close> for \<open>null\<close>.
\<close>

definition localPreviewProxyTarget ::
  "platform \<Rightarrow> jsstring \<Rightarrow> url \<Rightarrow> thrown + (jsstring \<times> jsstring \<times> url) option" where
  "localPreviewProxyTarget pf request_url u =
     (if \<not> startsWith (pathname u) (LOCAL_PREVIEW_PROXY_PREFIX @ js ''/'') then Inr None
      else
        let rest = drop (length (LOCAL_PREVIEW_PROXY_PREFIX @ js ''/'')) (pathname u);
            no_slash = (0x2F \<notin> set rest);
            encodedHost = takeWhile (\<lambda>c. c \<noteq> 0x2F) rest;
            proxiedPath = (if no_slash then js ''/index.html''
                           else dropWhile (\<lambda>c. c \<noteq> 0x2F) rest)
        in case decodeURIComponent encodedHost of
             Inl e \<Rightarrow> Inl e
           | Inr previewHost \<Rightarrow>
               (case new_URL pf request_url of
                  None \<Rightarrow> Inl invalid_url
                | Some proxyTarget \<Rightarrow>
                    let proxyTarget = set_host pf proxyTarget previewHost;
                        proxyTarget = set_pathname proxyTarget
                          (if proxiedPath = [] then js ''/index.html'' else proxiedPath);
                        proxyTarget = set_search proxyTarget (search u)
                    in Inr (Some (previewHost, proxiedPath, proxyTarget))))"

definition handleLocalPreviewProxyRoute ::
  "platform \<Rightarrow> (jsstring \<Rightarrow> response option) \<Rightarrow> jsstring \<Rightarrow> url \<Rightarrow> thrown + response option"
where
  "handleLocalPreviewProxyRoute pf proxyToSandbox request_url u =
     (case localPreviewProxyTarget pf request_url u of
        Inl e \<Rightarrow> Inl e
      | Inr None \<Rightarrow> Inr None
      | Inr (Some (previewHost, proxiedPath, proxyTarget)) \<Rightarrow>
          (case proxyToSandbox (href proxyTarget) of
             Some proxyResponse \<Rightarrow> Inr (Some proxyResponse)
           | None \<Rightarrow>
               Inr (Some (json (Obj [(js ''ok'', Boolean False),
                   (js ''message'',
                    Str (js ''Local preview fallback route did not resolve through proxyToSandbox.'')),
                   (js ''debug'', Obj [(js ''requestUrl'', Str request_url),
                      (js ''previewHost'', Str previewHost),
                      (js ''proxiedPath'', Str proxiedPath),
                      (js ''proxyTarget'', Str (href proxyTarget))])]) 502))))"

section \<open>Cleaning generated Python\<close>

text \<open>\<open>/^```python\s*/i\<close>, \<open>/^```\s*/i\<close> and \<open>/```$/i\<close>\<close>

definition re_fence_python :: regex where
  "re_fence_python = Seq Bol (Seq (lit_i (js ''```python'')) (Star (Chr is_whitespace)))"

definition re_fence_open :: regex where
  "re_fence_open = Seq Bol (Seq (lit_i (js ''```'')) (Star (Chr is_whitespace)))"

definition re_fence_close :: regex where
  "re_fence_close = Seq (lit_i (js ''```'')) Eol"

definition sanitizePython :: "jsstring \<Rightarrow> jsstring" where
  "sanitizePython content =
     (let trimmed = trim content in
      if \<not> str_includes trimmed (js ''```'') then trimmed
      else
        let withoutFences =
              trim (regex_replace re_fence_close []
                     (regex_replace re_fence_open []
                       (regex_replace re_fence_python [] trimmed)))
        in if withoutFences \<noteq> [] then withoutFences else trimmed)"

section \<open>The interactive preview example\<close>

text \<open>
  The sandbox of \<open>runInteractiveDevPreview\<close>, given by what each call does: the
  calls before \<open>exposePort\<close> return (\<open>None\<close>) or throw, and \<open>exposePort\<close>, called
  with the host name option, throws or returns an object with a string \<open>url\<close> and
  perhaps a property \<open>exposedAt\<close>. \<open>exampleById\<close> is not among the sources; it is
  taken as a parameter, the list of its own properties.
\<close>

record exposed_port =
  exposedAt :: "jsvalue option"
  exposed_url :: jsstring

record preview_sandbox =
  mkdir_throws :: "thrown option"
  writeFile_throws :: "thrown option"
  getProcess_throws :: "thrown option"
  startProcess_throws :: "thrown option"
  waitForPort_throws :: "thrown option"
  exposePort :: "jsstring \<Rightarrow> thrown + exposed_port"

definition unless_thrown :: "thrown option \<Rightarrow> (thrown + 'a) \<Rightarrow> thrown + 'a" where
  "unless_thrown t k = (case t of Some e \<Rightarrow> Inl e | None \<Rightarrow> k)"

definition rawPreviewUrl :: "exposed_port \<Rightarrow> jsstring" where
  "rawPreviewUrl exposed =
     (case exposedAt exposed of
        Some (Str x) \<Rightarrow> x
      | _ \<Rightarrow> exposed_url exposed)"

definition success_summary :: "(jsstring \<times> jsvalue) list \<Rightarrow> jsstring \<Rightarrow> jsstring \<Rightarrow> thrown + jsvalue"
where
  "success_summary exampleById example_id fallback =
     and_then (get_prop (Obj exampleById) example_id) (\<lambda>example.
     and_then (get_prop example (js ''messages'')) (\<lambda>messages.
       Inr (nullish_or (optional_prop messages (js ''successSummary'')) (Str fallback))))"

definition runInteractiveDevPreview ::
  "platform \<Rightarrow> (jsstring \<times> jsvalue) list \<Rightarrow> preview_sandbox \<Rightarrow> jsstring \<Rightarrow> thrown + jsvalue"
where
  "runInteractiveDevPreview pf exampleById sandbox request_url =
     unless_thrown (mkdir_throws sandbox)
    (unless_thrown (writeFile_throws sandbox)
    (unless_thrown
       (case getProcess_throws sandbox of
          None \<Rightarrow> None
        | Some _ \<Rightarrow>
            (case startProcess_throws sandbox of
               Some e \<Rightarrow> Some e
             | None \<Rightarrow> waitForPort_throws sandbox))
    (case new_URL pf request_url of
       None \<Rightarrow> Inl invalid_url
     | Some requestUrl \<Rightarrow>
         let isLocalHost = isLocalHostname (hostname requestUrl);
             currentPort = port requestUrl;
             exposedHostname =
               (if isLocalHost
                then (if currentPort \<noteq> [] then hostname requestUrl @ js '':'' @ currentPort
                      else hostname requestUrl)
                else host requestUrl)
         in and_then (exposePort sandbox exposedHostname) (\<lambda>exposed.
            and_then (normalizeLocalPreviewUrl pf (rawPreviewUrl exposed) request_url) (\<lambda>normalized.
            and_then (forcePreviewIndexUrl pf normalized) (\<lambda>directPreviewUrl.
            and_then (buildLocalPreviewFallbackUrl pf directPreviewUrl request_url)
              (\<lambda>localFallbackPreviewUrl.
            and_then (success_summary exampleById (js ''interactive-dev'')
                        (js ''Preview server started in sandbox and exposed through URL.''))
              (\<lambda>summary.
              Inr (Obj [(js ''ok'', Boolean True),
                        (js ''exampleId'', Str (js ''interactive-dev'')),
                        (js ''sandboxId'', Str (js ''workshop-interactive-dev'')),
                        (js ''summary'', summary),
                        (js ''previewUrl'', Str directPreviewUrl),
                        (js ''details'',
                         Obj [(js ''directPreviewUrl'', Str directPreviewUrl),
                              (js ''localFallbackPreviewUrl'',
                               (case localFallbackPreviewUrl of
                                  None \<Rightarrow> Undefined | Some f \<Rightarrow> Str f))]),
                        (js ''exitCode'', Number 0)])))))))))"

section \<open>Generating code with the model\<close>

text \<open>
  A request, by what the handlers read: the method, the URL string and the outcome
  of \<open>request.json()\<close>. \<open>AI_run\<close> is \<open>env.AI.run\<close>, applied to the model name, the
  system message and the user message; the handlers that only drive a sandbox are
  given by their outcomes.
\<close>

record request =
  request_method :: jsstring
  request_url :: jsstring
  request_json :: "thrown + jsvalue"

record worker_env =
  exampleById :: "(jsstring \<times> jsvalue) list"
  AI_run :: "jsstring \<Rightarrow> jsstring \<Rightarrow> jsstring \<Rightarrow> thrown + jsvalue"
  runAiGeneratedCode :: "jsvalue \<Rightarrow> thrown + jsvalue"
  runDataAnalysis :: "jsvalue \<Rightarrow> jsvalue \<Rightarrow> thrown + jsvalue"
  runCiTesting :: "thrown + jsvalue"
  runUntrustedCode :: "jsvalue \<Rightarrow> thrown + jsvalue"
  runSessionFundamentals :: "thrown + jsvalue"
  preview_sandbox :: preview_sandbox

text \<open>\<open>extractText\<close>: \<open>None\<close> is the result \<open>undefined\<close>. Reading \<open>message\<close> from a
  first choice that is \<open>null\<close> throws.\<close>

definition is_object :: "jsvalue \<Rightarrow> bool" where
  "is_object v = (case v of Obj _ \<Rightarrow> True | Arr _ \<Rightarrow> True | Null \<Rightarrow> True | _ \<Rightarrow> False)"

definition extractText :: "jsvalue \<Rightarrow> thrown + jsstring option" where
  "extractText response =
     (if \<not> truthy response \<or> \<not> is_object response then Inr None
      else
        case string_of (optional_prop response (js ''response'')) of
          Some x \<Rightarrow> Inr (Some x)
        | None \<Rightarrow>
            let result = optional_prop response (js ''result'') in
            (case (if truthy result then string_of (optional_prop result (js ''response''))
                   else None) of
               Some x \<Rightarrow> Inr (Some x)
             | None \<Rightarrow>
                 (case optional_prop response (js ''choices'') of
                    Arr (choice # _) \<Rightarrow>
                      and_then (get_prop choice (js ''message'')) (\<lambda>message.
                        Inr (if truthy message
                             then string_of (optional_prop message (js ''content''))
                             else None))
                  | _ \<Rightarrow> Inr None)))"

definition generatePythonFromPrompt :: "platform \<Rightarrow> worker_env \<Rightarrow> jsstring \<Rightarrow> thrown + jsstring"
where
  "generatePythonFromPrompt pf env prompt =
     and_then
       (AI_run env (js ''@cf/zai-org/glm-4.7-flash'')
          (js ''You generate Python scripts for an educational Cloudflare Sandbox workshop.''
           @ js '' Return only Python code, no markdown fences.''
           @ js '' Keep it short (15-40 lines), clear, safe, and runnable in a sandbox.''
           @ js '' Prefer standard library only unless user explicitly asks otherwise.''
           @ js '' Always print observable output for workshop participants.'')
          (js ''Create a Python script for this request:\<newline>'' @ prompt
           @ js ''\<newline>\<newline>Return only raw Python code.''))
       (\<lambda>aiResponse.
          and_then (extractText aiResponse) (\<lambda>text.
            Inr (sanitizePython
                   (case text of
                      Some raw \<Rightarrow> raw
                    | None \<Rightarrow>
                        js ''# Fallback generated script\<newline>prompt = ''
                        @ JSON_stringify pf (Str prompt)
                        @ js ''\<newline>print('Prompt:', prompt)\<newline>print('Length:', len(prompt))''))))"

text \<open>\<open>handleAiCodeGeneration\<close>. \<open>body.prompt?.trim()\<close> throws a \<open>TypeError\<close> when the
  body is \<open>null\<close> and when \<open>prompt\<close> is neither a string nor \<open>null\<close> nor absent.\<close>

definition not_a_function :: thrown where
  "not_a_function = Error (js ''body.prompt?.trim is not a function'')"

definition handleAiCodeGeneration :: "platform \<Rightarrow> worker_env \<Rightarrow> request \<Rightarrow> thrown + response"
where
  "handleAiCodeGeneration pf env request =
     (if request_method request \<noteq> js ''POST''
      then Inr (json (Obj [(js ''ok'', Boolean False),
                           (js ''message'', Str (js ''Method not allowed''))]) 405)
      else
        and_then (request_json request) (\<lambda>body.
        and_then (get_prop body (js ''prompt'')) (\<lambda>value.
        and_then (case value of
                    Undefined \<Rightarrow> Inr None
                  | Null \<Rightarrow> Inr None
                  | Str x \<Rightarrow> Inr (Some (trim x))
                  | _ \<Rightarrow> Inl not_a_function) (\<lambda>prompt.
          case prompt of
            None \<Rightarrow> Inr (json (Obj [(js ''ok'', Boolean False),
                                    (js ''message'', Str (js ''Prompt is required.''))]) 400)
          | Some p \<Rightarrow>
              if p = [] then
                Inr (json (Obj [(js ''ok'', Boolean False),
                                (js ''message'', Str (js ''Prompt is required.''))]) 400)
              else
                and_then (generatePythonFromPrompt pf env p) (\<lambda>code.
                  Inr (json (Obj [(js ''ok'', Boolean True), (js ''prompt'', Str p),
                                  (js ''code'', Str code)]) 200))))))"

section \<open>Examples and sessions\<close>

text \<open>\<open>s.replace(pattern, replacement)\<close> for a pattern that is a string: the first
  occurrence is replaced.\<close>

fun str_replace :: "jsstring \<Rightarrow> jsstring \<Rightarrow> jsstring \<Rightarrow> jsstring" where
  "str_replace pat repl [] = (if pat = [] then repl else [])"
| "str_replace pat repl (c # cs) =
     (if startsWith (c # cs) pat then repl @ drop (length pat) (c # cs)
      else c # str_replace pat repl cs)"

definition runExample ::
  "platform \<Rightarrow> worker_env \<Rightarrow> jsstring \<Rightarrow> jsvalue \<Rightarrow> jsvalue \<Rightarrow> request \<Rightarrow> thrown + jsvalue"
where
  "runExample pf env example_id input prompt request =
     (if example_id = js ''ai-generated-code'' then runAiGeneratedCode env input
      else if example_id = js ''data-analysis'' then runDataAnalysis env input prompt
      else if example_id = js ''interactive-dev''
        then runInteractiveDevPreview pf (exampleById env) (preview_sandbox env)
               (request_url request)
      else if example_id = js ''ci-testing'' then runCiTesting env
      else if example_id = js ''security-untrusted'' then runUntrustedCode env input
      else Inr Undefined)"

definition handleExampleRequest ::
  "platform \<Rightarrow> worker_env \<Rightarrow> request \<Rightarrow> url \<Rightarrow> thrown + response" where
  "handleExampleRequest pf env request u =
     (if pathname u = js ''/api/examples/ai-generated-code/generate''
      then handleAiCodeGeneration pf env request
      else
        let example_id = str_replace (js ''/api/examples/'') [] (pathname u);
            example = optional_prop (Obj (exampleById env)) example_id
        in if \<not> truthy example
           then Inr (json (Obj [(js ''ok'', Boolean False),
                                (js ''message'', Str (js ''Unknown example id: '' @ example_id))])
                          404)
           else
             (case and_then
                     (if request_method request = js ''POST'' then request_json request
                      else Inr Undefined)
                     (\<lambda>body. runExample pf env example_id (optional_prop body (js ''input''))
                                (optional_prop body (js ''prompt'')) request) of
                Inr result \<Rightarrow> Inr (json result 200)
              | Inl error \<Rightarrow>
                  Inr (json (Obj [(js ''ok'', Boolean False), (js ''exampleId'', Str example_id),
                                  (js ''message'', Str (error_message error))]) 500)))"

text \<open>\<open>sessionById\<close>, with the properties of each session that the worker reads.\<close>

definition sessionById :: "(jsstring \<times> jsvalue) list" where
  "sessionById =
     [(js ''fundamentals'',
       Obj [(js ''id'', Str (js ''fundamentals'')),
            (js ''resultSummary'',
             Str (js ''Executed a first shell command in an isolated sandbox.''))]),
      (js ''executing-code'',
       Obj [(js ''id'', Str (js ''executing-code'')),
            (js ''resultSummary'', Str (js ''Executed Python safely and captured output.''))]),
      (js ''data-workflows'',
       Obj [(js ''id'', Str (js ''data-workflows'')),
            (js ''resultSummary'', Str (js ''Ran CSV analysis workflow in sandbox.''))]),
      (js ''preview-workflows'',
       Obj [(js ''id'', Str (js ''preview-workflows'')),
            (js ''resultSummary'',
             Str (js ''Started preview workflow and exposed an app URL.''))]),
      (js ''automation-ci'',
       Obj [(js ''id'', Str (js ''automation-ci'')),
            (js ''resultSummary'', Str (js ''Ran test automation workflow in isolation.''))])]"

text \<open>The session result built from an example result: the listed properties are
  copied, \<open>sessionId\<close> and \<open>summary\<close> are set.\<close>

definition session_result ::
  "jsstring \<Rightarrow> jsstring list \<Rightarrow> jsvalue \<Rightarrow> thrown + jsvalue" where
  "session_result session_id copied result =
     and_then (get_prop result (js ''ok'')) (\<lambda>ok.
     and_then (get_prop result (js ''sandboxId'')) (\<lambda>sandboxId.
     and_then (get_prop (Obj sessionById) session_id) (\<lambda>session.
     and_then (get_prop session (js ''resultSummary'')) (\<lambda>summary.
       Inr (Obj ([(js ''ok'', ok), (js ''sessionId'', Str session_id),
                  (js ''sandboxId'', sandboxId), (js ''summary'', summary)]
                 @ map (\<lambda>k. (k, optional_prop result k)) copied))))))"

definition runSession :: "platform \<Rightarrow> worker_env \<Rightarrow> jsstring \<Rightarrow> url \<Rightarrow> thrown + jsvalue" where
  \<open>runSession pf env session_id u =
     (if session_id = js ''fundamentals'' then runSessionFundamentals env
      else if session_id = js ''executing-code'' then
        and_then
          (runAiGeneratedCode env
             (Str (js ''print("hello from python")\<newline>print("sandbox fundamentals are reusable")'')))
          (session_result session_id [js ''output'', js ''stderr'', js ''exitCode''])
      else if session_id = js ''data-workflows'' then
        and_then
          (runDataAnalysis env Undefined (Str (js ''What trends stand out by region?'')))
          (session_result session_id [js ''output'', js ''stderr'', js ''exitCode'', js ''details''])
      else if session_id = js ''preview-workflows'' then
        and_then
          (runInteractiveDevPreview pf (exampleById env) (preview_sandbox env) (href u))
          (session_result session_id [js ''previewUrl'', js ''details'', js ''exitCode''])
      else if session_id = js ''automation-ci'' then
        and_then (runCiTesting env)
          (session_result session_id [js ''output'', js ''stderr'', js ''exitCode''])
      else Inr Undefined)\<close>

definition handleSessionRequest :: "platform \<Rightarrow> worker_env \<Rightarrow> url \<Rightarrow> response" where
  "handleSessionRequest pf env u =
     (let session_id = str_replace (js ''/api/sessions/'') [] (pathname u);
          session = optional_prop (Obj sessionById) session_id
      in if \<not> truthy session
         then json (Obj [(js ''ok'', Boolean False),
                         (js ''message'', Str (js ''Unknown session id: '' @ session_id))]) 404
         else
           (case runSession pf env session_id u of
              Inr result \<Rightarrow> json result 200
            | Inl error \<Rightarrow>
                json (Obj [(js ''ok'', Boolean False), (js ''sessionId'', Str session_id),
                           (js ''message'', Str (error_message error))]) 500))"

section \<open>CSV structure\<close>

text \<open>\<open>/\r?\n/\<close>, \<open>/^-?\d+$/\<close>, \<open>/^-?\d+\.\d+$/\<close> and \<open>/^(true|false)$/i\<close>\<close>

definition re_newline :: regex where
  "re_newline = Seq (Opt (Chr (\<lambda>c. c = 0xD))) (Chr (\<lambda>c. c = 0xA))"

definition re_int :: regex where
  "re_int = Seq Bol (Seq (Opt (Chr (\<lambda>c. c = 0x2D))) (Seq (Plus (Chr is_digit)) Eol))"

definition re_float :: regex where
  "re_float =
     Seq Bol (Seq (Opt (Chr (\<lambda>c. c = 0x2D)))
       (Seq (Plus (Chr is_digit)) (Seq (Chr (\<lambda>c. c = 0x2E)) (Seq (Plus (Chr is_digit)) Eol))))"

definition re_bool :: regex where
  "re_bool = Seq Bol (Seq (Alt (lit_i (js ''true'')) (lit_i (js ''false''))) Eol)"

definition inferCsvValueType :: "jsstring \<Rightarrow> jsstring" where
  "inferCsvValueType v =
     (let normalized = trim v in
      if normalized = [] then js ''string''
      else if regex_test re_int normalized then js ''int64''
      else if regex_test re_float normalized then js ''float64''
      else if regex_test re_bool normalized then js ''bool''
      else js ''string'')"

text \<open>\<open>Object.fromEntries\<close>: a later entry with the key of an earlier one replaces
  its value in place. \<open>cell row idx\<close> is \<open>row[idx] ?? ''\<close>.\<close>

fun set_property :: "jsstring \<Rightarrow> jsvalue \<Rightarrow> (jsstring \<times> jsvalue) list \<Rightarrow> (jsstring \<times> jsvalue) list"
where
  "set_property k v [] = [(k, v)]"
| "set_property k v ((k', v') # ps) =
     (if k' = k then (k, v) # ps else (k', v') # set_property k v ps)"

definition fromEntries :: "(jsstring \<times> jsvalue) list \<Rightarrow> (jsstring \<times> jsvalue) list" where
  "fromEntries entries = foldl (\<lambda>obj (k, v). set_property k v obj) [] entries"

definition cell :: "jsstring list \<Rightarrow> nat \<Rightarrow> jsstring" where
  "cell row idx = (if idx < length row then row ! idx else [])"

text \<open>\<open>buildCsvStructure\<close> returns \<open>JSON.stringify\<close> of an object, in either branch;
  \<open>csvStructure\<close> is that object.\<close>

definition csvStructure :: "jsstring \<Rightarrow> jsvalue" where
  "csvStructure csv =
     (let lines = filter (\<lambda>line. 0 < length line) (map trim (regex_split re_newline csv))
      in case lines of
           [] \<Rightarrow> Obj [(js ''rows'', Number 0), (js ''columns'', Arr []),
                      (js ''dtypes'', Obj []), (js ''sample'', Arr [])]
         | first # others \<Rightarrow>
             let columns = map trim (split_on 0x2C first);
                 records = map (\<lambda>line. map trim (split_on 0x2C line)) others;
                 sample =
                   map (\<lambda>row. Obj (fromEntries
                          (map (\<lambda>(idx, column). (column, Str (cell row idx)))
                               (enumerate 0 columns))))
                       (take 3 records);
                 dtypes =
                   Obj (fromEntries
                     (map (\<lambda>(idx, column).
                            let firstPopulated =
                                  (case find (\<lambda>v. 0 < length (trim v))
                                             (map (\<lambda>row. cell row idx) records) of
                                     None \<Rightarrow> [] | Some v \<Rightarrow> v)
                            in (column, Str (inferCsvValueType firstPopulated)))
                          (enumerate 0 columns)))
             in Obj [(js ''rows'', Number (int (length records))),
                     (js ''columns'', Arr (map Str columns)),
                     (js ''dtypes'', dtypes), (js ''sample'', Arr sample)])"

definition buildCsvStructure :: "platform \<Rightarrow> jsstring \<Rightarrow> jsstring" where
  "buildCsvStructure pf csv = JSON_stringify pf (csvStructure csv)"


section \<open>The terminal WebSocket route\<close>











section \<open>Well-formed URLs and a table-driven platform\<close>

text \<open>
  What the platform's parser guarantees of the \<open>URL\<close> object of an \<open>http\<close> or
  \<open>https\<close> URL, as far as the worker depends on it: the host is not empty, and the
  port is null or the canonical decimal form of a number up to 65535 other than
  the scheme's default port.
\<close>

definition port_ok :: "jsstring \<Rightarrow> bool" where
  "port_ok p =
     (p \<noteq> [] \<and> list_all is_digit p \<and> digits_value p \<le> 65535
      \<and> decimal (digits_value p) = p)"

definition http_url :: "url \<Rightarrow> bool" where
  "http_url u =
     ((protocol u = js ''http:'' \<or> protocol u = js ''https:'') \<and> hostname u \<noteq> []
      \<and> (port u = [] \<or> (port_ok (port u) \<and> port u \<noteq> default_port (protocol u))))"

text \<open>
  What the parser guarantees further of such a URL: the host name is not empty and
  holds no forbidden domain code point (so it is ASCII, without \<open>:\<close>, \<open>/\<close>, \<open>?\<close>,
  \<open>#\<close>, \<open>\\<close>, \<open>[\<close>, \<open>]\<close>, \<open>%\<close> or white space); the path starts with \<open>/\<close>, none of
  its code units is in the path percent-encode set or is \<open>\\<close>, and none of its
  segments is a dot segment; no code unit of the query is in the special-query
  percent-encode set.
\<close>

definition forbidden_host :: "nat \<Rightarrow> bool" where
  "forbidden_host cp =
     (cp \<le> 0x20 \<or> cp = 0x23 \<or> cp = 0x25 \<or> cp = 0x2F \<or> cp = 0x3A \<or> cp = 0x3C \<or> cp = 0x3E
      \<or> cp = 0x3F \<or> cp = 0x40 \<or> cp = 0x5B \<or> cp = 0x5C \<or> cp = 0x5D \<or> cp = 0x5E \<or> cp = 0x7C
      \<or> 0x7F \<le> cp)"

definition host_ok :: "jsstring \<Rightarrow> bool" where
  "host_ok h = (h \<noteq> [] \<and> list_all (\<lambda>c. \<not> forbidden_host (unat c)) h)"

definition path_char :: "jschar \<Rightarrow> bool" where
  "path_char c = (\<not> path_set (unat c) \<and> c \<noteq> 0x5C)"

definition no_dot :: "jsstring \<Rightarrow> bool" where
  "no_dot seg = (\<not> is_single_dot seg \<and> \<not> is_double_dot seg)"

definition path_ok :: "jsstring \<Rightarrow> bool" where
  "path_ok p =
     (case p of
        [] \<Rightarrow> False
      | c # cs \<Rightarrow> c = 0x2F \<and> list_all path_char cs
                 \<and> list_all no_dot (split_when (\<lambda>c. c = 0x2F) cs))"

definition query_ok :: "jsstring option \<Rightarrow> bool" where
  "query_ok q = (case q of None \<Rightarrow> True
                 | Some s \<Rightarrow> list_all (\<lambda>c. \<not> special_query_set (unat c)) s)"

definition parsed_http :: "url \<Rightarrow> bool" where
  "parsed_http u =
     (http_url u \<and> host_ok (hostname u) \<and> path_ok (pathname u) \<and> query_ok (query u))"

text \<open>\<open>encodeURIComponent\<close> on ASCII: a code unit of the unreserved set stays, any
  other becomes the escape \<open>%XX\<close> of its one byte.\<close>

definition ascii :: "jschar \<Rightarrow> bool" where
  "ascii c = (unat c < 0x80)"

definition escape_unit :: "jschar \<Rightarrow> jsstring" where
  "escape_unit c = (if uri_unreserved (unat c) then [c] else percent_byte (unat c))"

definition escaped :: "jsstring \<Rightarrow> jsstring" where
  "escaped s = concat (map escape_unit s)"

text \<open>For concrete runs: a platform whose parser knows the URLs of a table, and
  whose host parser accepts every name as it is.\<close>

definition table_platform :: "(jsstring \<times> url) list \<Rightarrow> platform" where
  "table_platform tbl = \<lparr>new_URL = map_of tbl, parse_host = Some, JSON_stringify = (\<lambda>_. [])\<rparr>"

definition http_record :: "string \<Rightarrow> string \<Rightarrow> string \<Rightarrow> string \<Rightarrow> url" where
  "http_record scheme name port_value path =
     \<lparr>protocol = js scheme, username = [], password = [], hostname = js name,
      port = js port_value, pathname = js path, query = None, fragment = None\<rparr>"




section \<open>The forms of CSV values\<close>

text \<open>
  An integer form is an optional \<open>-\<close> and one or more decimal digits; a decimal form
  an optional \<open>-\<close>, digits, a dot and digits; a boolean form the word \<open>true\<close> or
  \<open>false\<close> with each letter in either ASCII case. \<open>csv_lines\<close> are the trimmed
  non-empty lines of the input, \<open>csv_cells\<close> the trimmed cells of a line.
\<close>

definition is_int_form :: "jsstring \<Rightarrow> bool" where
  "is_int_form t = (\<exists>ds. ds \<noteq> [] \<and> list_all is_digit ds \<and> (t = ds \<or> t = 0x2D # ds))"

definition is_float_form :: "jsstring \<Rightarrow> bool" where
  "is_float_form t =
     (\<exists>a b. a \<noteq> [] \<and> list_all is_digit a \<and> b \<noteq> [] \<and> list_all is_digit b
            \<and> (t = a @ 0x2E # b \<or> t = 0x2D # a @ 0x2E # b))"

definition same_letters :: "jsstring \<Rightarrow> jsstring \<Rightarrow> bool" where
  "same_letters t w = list_all2 (\<lambda>x c. x = c \<or> x = c - 0x20) t w"

definition is_bool_form :: "jsstring \<Rightarrow> bool" where
  "is_bool_form t = (same_letters t (js ''true'') \<or> same_letters t (js ''false''))"

definition ci :: "jschar \<Rightarrow> jschar \<Rightarrow> bool" where
  "ci c x = (x = c \<or> (x < 0x80 \<and> fold_case x = fold_case c))"

definition csv_lines :: "jsstring \<Rightarrow> jsstring list" where
  "csv_lines csv = filter (\<lambda>line. line \<noteq> []) (map trim (regex_split re_newline csv))"

definition csv_cells :: "jsstring \<Rightarrow> jsstring list" where
  "csv_cells line = map trim (split_on 0x2C line)"

definition first_non_blank :: "jsstring list \<Rightarrow> jsstring" where
  "first_non_blank vs = (case filter (\<lambda>v. trim v \<noteq> []) vs of [] \<Rightarrow> [] | v # _ \<Rightarrow> v)"


section \<open>Facts about strings and the matcher\<close>

lemma endsWith_iff: "endsWith s p \<longleftrightarrow> (\<exists>q. s = q @ p)"
proof
  assume "endsWith s p"
  then have "s = take (length s - length p) s @ p"
    by (metis append_take_drop_id endsWith_def)
  then show "\<exists>q. s = q @ p" ..
next
  assume "\<exists>q. s = q @ p"
  then show "endsWith s p" by (auto simp: endsWith_def)
qed

lemma startsWith_iff: "startsWith s p \<longleftrightarrow> (\<exists>q. s = p @ q)"
proof
  assume "startsWith s p"
  then have "s = p @ drop (length p) s"
    by (metis append_take_drop_id startsWith_def)
  then show "\<exists>q. s = p @ q" ..
next
  assume "\<exists>q. s = p @ q"
  then show "startsWith s p" by (auto simp: startsWith_def)
qed

lemma split_on_ne: "split_on sep s \<noteq> []"
  by (induction s) (auto split: list.splits)

lemma split_on_hd: "hd (split_on sep s) = takeWhile (\<lambda>c. c \<noteq> sep) s"
  using split_on_ne [of sep] by (induction s) (auto split: list.splits)

lemma fst_splitHostAndPort: "fst (splitHostAndPort h) = takeWhile (\<lambda>c. c \<noteq> 0x3A) h"
  using split_on_hd [of "0x3A" h] split_on_ne [of "0x3A" h]
  by (auto simp: splitHostAndPort_def split: list.splits)

lemma rmatch_star_chr_Nil [simp]: "rmatch (Star (Chr P)) n [] = [[]]"
  by (simp add: rmatch.simps(7) [of "Chr P" n "[]"])

lemma rmatch_star_chr_Cons [simp]:
  "rmatch (Star (Chr P)) n (c # cs) =
     (if P c then rmatch (Star (Chr P)) n cs else []) @ [c # cs]"
  by (simp add: rmatch.simps(7) [of "Chr P" n "c # cs"])

lemma rmatch_star_chr_ne: "rmatch (Star (Chr P)) n s \<noteq> []"
  by (cases s) simp_all

lemma hd_rmatch_star_chr: "hd (rmatch (Star (Chr P)) n s) = dropWhile P s"
proof (induction s)
  case Nil
  show ?case by simp
next
  case (Cons c cs)
  then show ?case using rmatch_star_chr_ne [of P n cs] by simp
qed

lemma set_rmatch_star_chr:
  "set (rmatch (Star (Chr P)) n s) = {drop k s | k. k \<le> length (takeWhile P s)}"
proof (induction s)
  case Nil
  show ?case by simp
next
  case (Cons c cs)
  show ?case
  proof (cases "P c")
    case False
    then show ?thesis by simp
  next
    case True
    have "{drop k (c # cs) | k. k \<le> Suc (length (takeWhile P cs))}
          = insert (c # cs) {drop k cs | k. k \<le> length (takeWhile P cs)}"
      apply auto
      subgoal for k by (cases k) auto
      subgoal by (rule exI [of _ 0]) simp
      subgoal for k by (rule exI [of _ "Suc k"]) simp
      done
    with True Cons show ?thesis by simp
  qed
qed

lemma concat_map_ne: "concat (map f xs) \<noteq> [] \<longleftrightarrow> (\<exists>x\<in>set xs. f x \<noteq> [])"
  by (induction xs) auto

lemma rmatch_Seq_ne:
  "rmatch (Seq a b) n s \<noteq> [] \<longleftrightarrow> (\<exists>t\<in>set (rmatch a n s). rmatch b n t \<noteq> [])"
  by (simp add: concat_map_ne del: concat_eq_Nil_conv)

lemma rmatch_Chr_ne: "rmatch (Chr P) n t \<noteq> [] \<longleftrightarrow> (\<exists>c rest. t = c # rest \<and> P c)"
  by (cases t) simp_all

lemma set_rmatch_plus_chr:
  "set (rmatch (Plus (Chr P)) n s) = {drop k s | k. 0 < k \<and> k \<le> length (takeWhile P s)}"
proof (cases s)
  case Nil
  then show ?thesis by (simp add: Plus_def)
next
  case (Cons c cs)
  show ?thesis
  proof (cases "P c")
    case False
    with Cons show ?thesis by (simp add: Plus_def)
  next
    case True
    have "{drop k (c # cs) | k. 0 < k \<and> k \<le> Suc (length (takeWhile P cs))}
          = {drop k cs | k. k \<le> length (takeWhile P cs)}"
      apply auto
      subgoal for k by (cases k) auto
      subgoal for k by (rule exI [of _ "Suc k"]) simp
      done
    with True Cons show ?thesis by (simp add: Plus_def set_rmatch_star_chr)
  qed
qed

lemma search_Bol_short: "length s < n \<Longrightarrow> regex_search (Seq Bol r) n s = None"
  by (induction s) simp_all

lemma regex_test_Bol: "regex_test (Seq Bol r) s \<longleftrightarrow> rmatch r (length s) s \<noteq> []"
proof (cases s)
  case Nil
  then show ?thesis by (simp add: regex_test_def split: list.splits)
next
  case (Cons c cs)
  have "regex_search (Seq Bol r) (Suc (length cs)) cs = None"
    by (rule search_Bol_short) simp
  with Cons show ?thesis by (simp add: regex_test_def split: list.splits)
qed

lemma take_le_takeWhile:
  assumes "k \<le> length (takeWhile P h)"
  shows "list_all P (take k h)"
proof -
  have "take k h = take k (takeWhile P h @ dropWhile P h)" by simp
  also have "\<dots> = take k (takeWhile P h)" using assms by (simp del: takeWhile_dropWhile_id)
  finally have "set (take k h) \<subseteq> set (takeWhile P h)" by (metis set_take_subset)
  then show ?thesis by (auto simp: list_all_iff dest: set_takeWhileD)
qed

lemma test_digits_dash:
  "regex_test re_digits_dash h \<longleftrightarrow>
     (\<exists>ds rest. ds \<noteq> [] \<and> list_all is_digit ds \<and> h = ds @ js ''-'' @ rest)"
proof -
  have dash: "\<not> is_digit 0x2D" by (simp add: is_digit_def)
  have "regex_test re_digits_dash h \<longleftrightarrow>
        (\<exists>k. 0 < k \<and> k \<le> length (takeWhile is_digit h) \<and> (\<exists>rest. drop k h = 0x2D # rest))"
    unfolding re_digits_dash_def regex_test_Bol rmatch_Seq_ne set_rmatch_plus_chr rmatch_Chr_ne
    by blast
  also have "\<dots> \<longleftrightarrow> (\<exists>ds rest. ds \<noteq> [] \<and> list_all is_digit ds \<and> h = ds @ 0x2D # rest)"
  proof
    assume "\<exists>k. 0 < k \<and> k \<le> length (takeWhile is_digit h) \<and> (\<exists>rest. drop k h = 0x2D # rest)"
    then obtain k rest where k: "0 < k" "k \<le> length (takeWhile is_digit h)"
      and d: "drop k h = 0x2D # rest" by blast
    have "list_all is_digit (take k h)" using k(2) by (rule take_le_takeWhile)
    moreover have "take k h \<noteq> []" using k d by (cases h) auto
    moreover have "h = take k h @ 0x2D # rest" using d by (metis append_take_drop_id)
    ultimately show "\<exists>ds rest. ds \<noteq> [] \<and> list_all is_digit ds \<and> h = ds @ 0x2D # rest"
      by blast
  next
    assume "\<exists>ds rest. ds \<noteq> [] \<and> list_all is_digit ds \<and> h = ds @ 0x2D # rest"
    then obtain ds rest where ds: "ds \<noteq> []" "list_all is_digit ds"
      and h: "h = ds @ 0x2D # rest" by blast
    have tw: "takeWhile is_digit h = ds"
      unfolding h using ds(2) dash by (simp add: list_all_iff takeWhile_append2)
    have "0 < length ds \<and> length ds \<le> length (takeWhile is_digit h)
          \<and> drop (length ds) h = 0x2D # rest"
      using ds(1) tw h by simp
    then show "\<exists>k. 0 < k \<and> k \<le> length (takeWhile is_digit h) \<and> (\<exists>rest. drop k h = 0x2D # rest)"
      by blast
  qed
  finally show ?thesis by (simp add: js_def)
qed

lemma inj_of_char16: "inj (of_char :: char \<Rightarrow> 16 word)"
proof (rule injI)
  fix x y :: char
  assume "(of_char x :: 16 word) = of_char y"
  then have "unat (of_char x :: 16 word) = unat (of_char y :: 16 word)" by simp
  moreover have "unat (of_char z :: 16 word) = (of_char z :: nat)" for z
    by (cases z) simp
  ultimately show "x = y" by simp
qed

lemma js_eq_iff [simp]: "js a = js b \<longleftrightarrow> a = b"
  by (simp add: js_def inj_map_eq_map inj_of_char16)

lemma js_Nil_iff [simp]: "js a = [] \<longleftrightarrow> a = []"
  by (simp add: js_def)









lemma strip_digits: "list_all is_digit p \<Longrightarrow> strip_tab_newline p = p"
  by (induction p) (auto simp: strip_tab_newline_def is_digit_def)

lemma takeWhile_all: "list_all P p \<Longrightarrow> takeWhile P p = p"
  by (induction p) auto

lemma port_state_ok:
  assumes "port_ok p" "p \<noteq> default_port (protocol u)"
  shows "port_state u p = u\<lparr>port := p\<rparr>"
  using assms by (simp add: port_state_def port_ok_def takeWhile_all Let_def)

lemma set_port_ok:
  assumes "port_ok p" "p \<noteq> default_port (protocol u)" "hostname u \<noteq> []"
    "protocol u \<noteq> js ''file:''"
  shows "set_port u p = u\<lparr>port := p\<rparr>"
  using assms by (simp add: set_port_def port_state_ok strip_digits port_ok_def)

lemma set_protocol_value:
  assumes "takeWhile (\<lambda>c. c \<noteq> 0x3A) (strip_tab_newline p) = b"
    "map ascii_lower b @ js '':'' = p"
    "b \<noteq> []" "is_alpha (hd b)" "list_all is_scheme_char b" "is_special p"
    "p \<noteq> js ''file:''" "is_special (protocol u)" "protocol u \<noteq> js ''file:''"
  shows "set_protocol u p =
    u\<lparr>protocol := p, port := (if port u = default_port p then [] else port u)\<rparr>"
  unfolding set_protocol_def Let_def assms(1) assms(2) using assms(3-) by simp

lemma http_values:
  "takeWhile (\<lambda>c. c \<noteq> 0x3A) (strip_tab_newline (js ''http:'')) = js ''http''"
  "takeWhile (\<lambda>c. c \<noteq> 0x3A) (strip_tab_newline (js ''https:'')) = js ''https''"
  "map ascii_lower (js ''http'') @ js '':'' = js ''http:''"
  "map ascii_lower (js ''https'') @ js '':'' = js ''https:''"
  "is_alpha (hd (js ''http''))" "is_alpha (hd (js ''https''))"
  "list_all is_scheme_char (js ''http'')" "list_all is_scheme_char (js ''https'')"
  "is_special (js ''http:'')" "is_special (js ''https:'')"
  by (simp_all add: js_def strip_tab_newline_def ascii_lower_def is_alpha_def
      is_scheme_char_def is_special_def)

lemma set_protocol_http:
  assumes "p = js ''http:'' \<or> p = js ''https:''"
    "protocol u = js ''http:'' \<or> protocol u = js ''https:''"
  shows "set_protocol u p =
    u\<lparr>protocol := p, port := (if port u = default_port p then [] else port u)\<rparr>"
proof -
  have u: "is_special (protocol u)" "protocol u \<noteq> js ''file:''"
    using assms(2) http_values by auto
  from assms(1) show ?thesis
  proof
    assume p: "p = js ''http:''"
    show ?thesis unfolding p
      by (rule set_protocol_value [where b = "js ''http''"]) (simp_all add: http_values u)
  next
    assume p: "p = js ''https:''"
    show ?thesis unfolding p
      by (rule set_protocol_value [where b = "js ''https''"]) (simp_all add: http_values u)
  qed
qed

lemma normalize_not_local:
  assumes "new_URL pf requestUrl = Some request" "new_URL pf exposedUrl = Some preview"
    "\<not> (isLocalHostname (hostname request) \<and> isLocalHostname (hostname preview))"
  shows "normalizeLocalPreviewUrl pf exposedUrl requestUrl = Inr exposedUrl"
  using assms by (auto simp: normalizeLocalPreviewUrl_def)

lemma normalize_local:
  assumes "new_URL pf requestUrl = Some request" "new_URL pf exposedUrl = Some preview"
    and h: "isLocalHostname (hostname request)" "isLocalHostname (hostname preview)"
      "http_url request" "http_url preview"
  shows "normalizeLocalPreviewUrl pf exposedUrl requestUrl =
           Inr (href (preview\<lparr>protocol := protocol request,
                  port := (if port request \<noteq> [] then port request
                           else if port preview = default_port (protocol request) then []
                           else port preview)\<rparr>))"
proof -
  let ?p = "set_protocol preview (protocol request)"
  have sp: "?p = preview\<lparr>protocol := protocol request,
        port := (if port preview = default_port (protocol request) then [] else port preview)\<rparr>"
    using h by (intro set_protocol_http) (auto simp: http_url_def)
  have nf: "protocol request \<noteq> js ''file:''" using h by (auto simp: http_url_def)
  show ?thesis
  proof (cases "port request = []")
    case True
    then show ?thesis using assms by (simp add: normalizeLocalPreviewUrl_def sp)
  next
    case False
    then have ok: "port_ok (port request)" "port request \<noteq> default_port (protocol request)"
      using h by (auto simp: http_url_def)
    have "set_port ?p (port request) = ?p\<lparr>port := port request\<rparr>"
      using ok h nf by (intro set_port_ok) (auto simp: sp http_url_def)
    then show ?thesis using assms False
      by (simp add: normalizeLocalPreviewUrl_def Let_def sp)
  qed
qed

lemma isLocalHostname_values:
  "isLocalHostname (js ''localhost'')" "isLocalHostname (js ''x.localhost'')"
  "isLocalHostname (js ''8080-x.localhost'')" "\<not> isLocalHostname (js ''example.com'')"
  by (simp_all add: isLocalHostname_def endsWith_def) (simp_all add: js_def)

lemma decimal_values:
  "decimal 8787 = js ''8787''" "decimal 443 = js ''443''" "decimal 80 = js ''80''"
  by (simp_all add: decimal.simps [of 8787] decimal.simps [of 878] decimal.simps [of 87]
      decimal.simps [of 8] decimal.simps [of 443] decimal.simps [of 44] decimal.simps [of 4]
      decimal.simps [of 80] js_def)

lemma digits_values:
  "digits_value (js ''8787'') = 8787" "digits_value (js ''443'') = 443"
  "digits_value (js ''80'') = 80"
  by (simp_all add: digits_value_def js_def)

lemma port_ok_values: "port_ok (js ''8787'')" "port_ok (js ''443'')" "port_ok (js ''80'')"
  by (simp_all add: port_ok_def digits_values decimal_values) (simp_all add: js_def is_digit_def)

lemma default_port_values:
  "default_port (js ''http:'') = js ''80''" "default_port (js ''https:'') = js ''443''"
  by (simp_all add: default_port_def)








lemma session_id_constructor:
  "str_replace (js ''/api/sessions/'') [] (js ''/api/sessions/constructor'') = js ''constructor''"
  "str_replace (js ''/api/examples/'') [] (js ''/api/examples/constructor'') = js ''constructor''"
  "str_replace (js ''/api/sessions/'') [] (js ''/api/sessions/automation-ci'') = js ''automation-ci''"
  "str_replace (js ''/api/examples/'') [] (js ''/api/examples/ci-testing'') = js ''ci-testing''"
  by (simp_all add: startsWith_def js_def)

lemma inherited_constructor: "inherited (js ''constructor'') = Builtin"
  by (simp add: inherited_def object_prototype_keys_def)

lemma session_lookup_constructor: "optional_prop (Obj sessionById) (js ''constructor'') = Builtin"
  by (simp add: optional_prop_def get_prop_def sessionById_def inherited_constructor)

lemma example_lookup_constructor:
  "map_of examples (js ''constructor'') = None \<Longrightarrow>
     optional_prop (Obj examples) (js ''constructor'') = Builtin"
  by (simp add: optional_prop_def get_prop_def inherited_constructor)

lemma runSession_constructor: "runSession pf env (js ''constructor'') u = Inr Undefined"
  by (simp add: runSession_def)

lemma runExample_constructor: "runExample pf env (js ''constructor'') i p r = Inr Undefined"
  by (simp add: runExample_def)





lemma takeWhile_full: "length s \<le> length (takeWhile P s) \<longleftrightarrow> list_all P s"
proof
  assume "length s \<le> length (takeWhile P s)"
  then have "length (takeWhile P s) = length s"
    using length_takeWhile_le [of P s] by simp
  then have "takeWhile P s = s"
    by (metis append_Nil2 append_eq_append_conv takeWhile_dropWhile_id)
  then show "list_all P s" by (metis list_all_iff set_takeWhileD)
next
  assume "list_all P s" then show "length s \<le> length (takeWhile P s)"
    by (simp add: takeWhile_all)
qed

lemma rmatch_Eol_ne: "rmatch Eol n s \<noteq> [] \<longleftrightarrow> s = []"
  by simp

lemma rmatch_plus_eol:
  "rmatch (Seq (Plus (Chr P)) Eol) n s \<noteq> [] \<longleftrightarrow> s \<noteq> [] \<and> list_all P s"
proof -
  have "rmatch (Seq (Plus (Chr P)) Eol) n s \<noteq> [] \<longleftrightarrow>
        (\<exists>k. 0 < k \<and> k \<le> length (takeWhile P s) \<and> length s \<le> k)"
    unfolding rmatch_Seq_ne set_rmatch_plus_chr rmatch_Eol_ne by auto
  also have "\<dots> \<longleftrightarrow> s \<noteq> [] \<and> length s \<le> length (takeWhile P s)"
    by (cases s) (auto intro: exI [of _ "length s"])
  finally show ?thesis by (simp add: takeWhile_full)
qed

lemma rmatch_opt_ne:
  "rmatch (Seq (Opt (Chr Q)) R) n s \<noteq> [] \<longleftrightarrow>
     (\<exists>c s'. s = c # s' \<and> Q c \<and> rmatch R n s' \<noteq> []) \<or> rmatch R n s \<noteq> []"
  by (cases s) (auto simp: Opt_def)

lemma test_int: "regex_test re_int t \<longleftrightarrow> is_int_form t"
proof -
  have m: "\<not> is_digit 0x2D" by (simp add: is_digit_def)
  have "regex_test re_int t \<longleftrightarrow>
     (\<exists>c s'. t = c # s' \<and> c = 0x2D \<and> s' \<noteq> [] \<and> list_all is_digit s') \<or> (t \<noteq> [] \<and> list_all is_digit t)"
    unfolding re_int_def regex_test_Bol rmatch_opt_ne rmatch_plus_eol by simp
  also have "\<dots> \<longleftrightarrow> is_int_form t"
    unfolding is_int_form_def by auto
  finally show ?thesis .
qed

lemma rmatch_dot_digits:
  "rmatch (Seq (Chr (\<lambda>c. c = d)) (Seq (Plus (Chr P)) Eol)) n s \<noteq> [] \<longleftrightarrow>
     (\<exists>b. s = d # b \<and> b \<noteq> [] \<and> list_all P b)"
  unfolding rmatch_Seq_ne [of "Chr (\<lambda>c. c = d)"] rmatch_plus_eol
  by (cases s) auto

lemma rmatch_float_body:
  assumes "\<not> P d"
  shows "rmatch (Seq (Plus (Chr P)) (Seq (Chr (\<lambda>c. c = d)) (Seq (Plus (Chr P)) Eol))) n s \<noteq> [] \<longleftrightarrow>
     (\<exists>a b. a \<noteq> [] \<and> list_all P a \<and> b \<noteq> [] \<and> list_all P b \<and> s = a @ d # b)"
proof -
  have "rmatch (Seq (Plus (Chr P)) (Seq (Chr (\<lambda>c. c = d)) (Seq (Plus (Chr P)) Eol))) n s \<noteq> [] \<longleftrightarrow>
     (\<exists>k. 0 < k \<and> k \<le> length (takeWhile P s) \<and> (\<exists>b. drop k s = d # b \<and> b \<noteq> [] \<and> list_all P b))"
    unfolding rmatch_Seq_ne [of "Plus (Chr P)"] set_rmatch_plus_chr rmatch_dot_digits by blast
  also have "\<dots> \<longleftrightarrow> (\<exists>a b. a \<noteq> [] \<and> list_all P a \<and> b \<noteq> [] \<and> list_all P b \<and> s = a @ d # b)"
  proof
    assume "\<exists>k. 0 < k \<and> k \<le> length (takeWhile P s) \<and> (\<exists>b. drop k s = d # b \<and> b \<noteq> [] \<and> list_all P b)"
    then obtain k b where k: "0 < k" "k \<le> length (takeWhile P s)"
      and b: "drop k s = d # b" "b \<noteq> []" "list_all P b" by blast
    have "list_all P (take k s)" using k(2) by (rule take_le_takeWhile)
    moreover have "take k s \<noteq> []" using k b by (cases s) auto
    moreover have "s = take k s @ d # b" using b(1) by (metis append_take_drop_id)
    ultimately show "\<exists>a b. a \<noteq> [] \<and> list_all P a \<and> b \<noteq> [] \<and> list_all P b \<and> s = a @ d # b"
      using b by blast
  next
    assume "\<exists>a b. a \<noteq> [] \<and> list_all P a \<and> b \<noteq> [] \<and> list_all P b \<and> s = a @ d # b"
    then obtain a b where a: "a \<noteq> []" "list_all P a" and b: "b \<noteq> []" "list_all P b"
      and s: "s = a @ d # b" by blast
    have tw: "takeWhile P s = a"
      unfolding s using a(2) assms by (simp add: list_all_iff takeWhile_append2)
    have "0 < length a \<and> length a \<le> length (takeWhile P s) \<and> drop (length a) s = d # b"
      using a(1) tw s by simp
    then show "\<exists>k. 0 < k \<and> k \<le> length (takeWhile P s) \<and> (\<exists>b. drop k s = d # b \<and> b \<noteq> [] \<and> list_all P b)"
      using b by blast
  qed
  finally show ?thesis .
qed

lemma test_float: "regex_test re_float t \<longleftrightarrow> is_float_form t"
proof -
  have d: "\<not> is_digit 0x2E" by (simp add: is_digit_def)
  show ?thesis
    unfolding re_float_def regex_test_Bol rmatch_opt_ne
      rmatch_float_body [of is_digit "0x2E", OF d] is_float_form_def
    by auto
qed

lemma lit_i_Nil: "lit_i [] = Eps" by (simp add: lit_i_def)

lemma lit_i_Cons: "lit_i (c # w) = Seq (Chr (ci c)) (lit_i w)"
  by (simp add: lit_i_def ci_def [abs_def])

lemma rmatch_Seq_Chr:
  "rmatch (Seq (Chr P) r) n s = (case s of [] \<Rightarrow> [] | x # xs \<Rightarrow> if P x then rmatch r n xs else [])"
  by (cases s) simp_all

lemma rmatch_lit_i:
  "rmatch (lit_i w) n s =
     (if length w \<le> length s \<and> list_all2 (\<lambda>x c. ci c x) (take (length w) s) w
      then [drop (length w) s] else [])"
proof (induction w arbitrary: s)
  case Nil
  show ?case by (simp add: lit_i_Nil)
next
  case (Cons c w)
  show ?case
    by (cases s) (simp_all add: lit_i_Cons rmatch_Seq_Chr Cons.IH del: rmatch.simps)
qed

lemma ci_letter:
  assumes "0x61 \<le> c" "c \<le> 0x7A"
  shows "ci c x \<longleftrightarrow> x = c \<or> x = c - 0x20"
proof -
  have fc: "fold_case c = c - 0x20" using assms by (simp add: fold_case_def)
  have lo: "unat (c - 0x20) = unat c - 0x20"
    using assms(1) by (simp add: unat_sub word_le_nat_alt)
  have up: "\<not> (0x61 \<le> c - 0x20)" "c - 0x20 < 0x80"
    using assms lo by (simp_all add: word_le_nat_alt word_less_nat_alt)
  show ?thesis
  proof
    assume h: "ci c x"
    show "x = c \<or> x = c - 0x20"
    proof (cases "0x61 \<le> x \<and> x \<le> 0x7A")
      case True
      then have "fold_case x = x - 0x20" by (simp add: fold_case_def)
      with h have "x = c \<or> x - 0x20 = c - 0x20" by (auto simp: ci_def fc)
      then show ?thesis by auto
    next
      case False
      then have "fold_case x = x" by (auto simp: fold_case_def)
      with h show ?thesis by (auto simp: ci_def fc)
    qed
  next
    assume "x = c \<or> x = c - 0x20"
    then show "ci c x"
    proof
      assume "x = c" then show ?thesis by (simp add: ci_def)
    next
      assume x: "x = c - 0x20"
      then have "fold_case x = c - 0x20" using up by (simp add: fold_case_def)
      then show ?thesis using x up by (simp add: ci_def fc)
    qed
  qed
qed

lemma same_letters_ci:
  assumes "list_all (\<lambda>c. 0x61 \<le> c \<and> c \<le> 0x7A) w"
  shows "list_all2 (\<lambda>x c. ci c x) t w \<longleftrightarrow> same_letters t w"
  unfolding same_letters_def using assms
proof (induction w arbitrary: t)
  case Nil
  show ?case by simp
next
  case (Cons c w)
  then show ?case by (cases t) (auto simp: ci_letter)
qed

lemma rmatch_lit_i_eol:
  assumes "list_all (\<lambda>c. 0x61 \<le> c \<and> c \<le> 0x7A) w"
  shows "rmatch (Seq (lit_i w) Eol) n s \<noteq> [] \<longleftrightarrow> same_letters s w"
proof -
  have "rmatch (Seq (lit_i w) Eol) n s \<noteq> [] \<longleftrightarrow>
      length w \<le> length s \<and> list_all2 (\<lambda>x c. ci c x) (take (length w) s) w \<and> length s \<le> length w"
    by (simp add: rmatch_lit_i)
  also have "\<dots> \<longleftrightarrow> list_all2 (\<lambda>x c. ci c x) s w"
  proof
    assume h: "length w \<le> length s \<and> list_all2 (\<lambda>x c. ci c x) (take (length w) s) w
        \<and> length s \<le> length w"
    then have "take (length w) s = s" by simp
    with h show "list_all2 (\<lambda>x c. ci c x) s w" by simp
  next
    assume h: "list_all2 (\<lambda>x c. ci c x) s w"
    then have "length s = length w" by (rule list_all2_lengthD)
    with h show "length w \<le> length s \<and> list_all2 (\<lambda>x c. ci c x) (take (length w) s) w
        \<and> length s \<le> length w" by simp
  qed
  finally show ?thesis by (simp add: same_letters_ci [OF assms])
qed

lemma test_bool: "regex_test re_bool t \<longleftrightarrow> is_bool_form t"
proof -
  have l: "list_all (\<lambda>c. 0x61 \<le> c \<and> c \<le> 0x7A) (js ''true'')"
    "list_all (\<lambda>c. 0x61 \<le> c \<and> c \<le> 0x7A) (js ''false'')"
    by (simp_all add: js_def)
  have "regex_test re_bool t \<longleftrightarrow>
      rmatch (Seq (lit_i (js ''true'')) Eol) (length t) t \<noteq> []
      \<or> rmatch (Seq (lit_i (js ''false'')) Eol) (length t) t \<noteq> []"
    unfolding re_bool_def regex_test_Bol by (auto simp del: concat_eq_Nil_conv)
  then show ?thesis
    by (simp only: rmatch_lit_i_eol [OF l(1)] rmatch_lit_i_eol [OF l(2)] is_bool_form_def)
qed

lemma inferCsvValueType_forms:
  "inferCsvValueType v =
     (if is_int_form (trim v) then js ''int64''
      else if is_float_form (trim v) then js ''float64''
      else if is_bool_form (trim v) then js ''bool''
      else js ''string'')"
proof -
  have "\<not> is_int_form []" "\<not> is_float_form []" "\<not> is_bool_form []"
    by (auto simp: is_int_form_def is_float_form_def is_bool_form_def same_letters_def js_def)
  then show ?thesis
    by (simp add: inferCsvValueType_def Let_def test_int test_float test_bool)
qed

lemma map_of_set_property: "map_of (set_property k v ps) = (map_of ps)(k \<mapsto> v)"
  by (induction ps) (auto simp: fun_eq_iff)

lemma map_of_foldl_set_property:
  "map_of (foldl (\<lambda>obj (k, v). set_property k v obj) acc es) = map_of acc ++ map_of (rev es)"
proof (induction es arbitrary: acc)
  case Nil
  show ?case by simp
next
  case (Cons e es)
  obtain k v where e: "e = (k, v)" by (cases e)
  show ?case
    by (simp add: e Cons.IH map_of_set_property map_of_append fun_eq_iff map_add_def
        split: option.splits)
qed

lemma map_of_fromEntries: "map_of (fromEntries es) = map_of (rev es)"
  by (simp add: fromEntries_def map_of_foldl_set_property)

lemma keys_of_entries:
  "map fst (map (\<lambda>(idx, column). (column, g idx column)) (enumerate m xs)) = xs"
  by (induction xs arbitrary: m) simp_all

lemma key_set_of_entries:
  "fst ` set (map (\<lambda>(idx, column). (column, g idx column)) (enumerate m xs)) = set xs"
  using keys_of_entries [of g m xs] by (metis list.set_map)

lemma map_of_rev_last:
  assumes "j < length cols" "cols ! j \<notin> set (drop (Suc j) cols)"
  shows "map_of (rev (map (\<lambda>(idx, column). (column, g idx column)) (enumerate m cols))) (cols ! j)
         = Some (g (m + j) (cols ! j))"
proof -
  have c: "cols = take j cols @ cols ! j # drop (Suc j) cols"
    using assms(1) by (simp add: id_take_nth_drop)
  let ?f = "\<lambda>(idx, column). (column, g idx column)"
  have len: "length (take j cols) = j" using assms(1) by simp
  have "enumerate m cols = enumerate m (take j cols) @ (m + j, cols ! j) # enumerate (Suc (m + j)) (drop (Suc j) cols)"
    using assms(1) by (subst c) (simp add: enumerate_append_eq len min_def del: append_take_drop_id)
  then have r: "rev (map ?f (enumerate m cols)) =
      rev (map ?f (enumerate (Suc (m + j)) (drop (Suc j) cols))) @ (cols ! j, g (m + j) (cols ! j))
        # rev (map ?f (enumerate m (take j cols)))"
    by simp
  have "fst ` set (map ?f (enumerate (Suc (m + j)) (drop (Suc j) cols))) = set (drop (Suc j) cols)"
    by (rule key_set_of_entries)
  then have "map_of (rev (map ?f (enumerate (Suc (m + j)) (drop (Suc j) cols)))) (cols ! j) = None"
    using assms(2) by (simp add: map_of_eq_None_iff del: set_map)
  then show ?thesis unfolding r by (simp add: map_of_append map_add_def)
qed

lemma dom_fromEntries_columns:
  "fst ` set (fromEntries (map (\<lambda>(idx, column). (column, g idx column)) (enumerate m cols))) = set cols"
proof -
  have "dom (map_of (fromEntries (map (\<lambda>(idx, column). (column, g idx column)) (enumerate m cols))))
      = fst ` set (map (\<lambda>(idx, column). (column, g idx column)) (enumerate m cols))"
    by (simp add: map_of_fromEntries dom_map_of_conv_image_fst del: set_map)
  also have "\<dots> = set cols"
    by (rule key_set_of_entries)
  finally show ?thesis by (simp add: dom_map_of_conv_image_fst)
qed

lemma find_first_non_blank:
  "(case find (\<lambda>v. 0 < length (trim v)) vs of None \<Rightarrow> [] | Some v \<Rightarrow> v) = first_non_blank vs"
  by (induction vs) (simp_all add: first_non_blank_def)

lemma find_first_non_blank':
  "(case find (\<lambda>v. trim v \<noteq> []) vs of None \<Rightarrow> [] | Some v \<Rightarrow> v) = first_non_blank vs"
  by (induction vs) (simp_all add: first_non_blank_def)

lemma csvStructure_empty:
  assumes "csv_lines csv = []"
  shows "csvStructure csv = Obj [(js ''rows'', Number 0), (js ''columns'', Arr []),
                      (js ''dtypes'', Obj []), (js ''sample'', Arr [])]"
  using assms by (simp add: csvStructure_def csv_lines_def)

lemma csvStructure_rows:
  assumes "csv_lines csv = header # data"
  shows "csvStructure csv =
     Obj [(js ''rows'', Number (int (length data))),
          (js ''columns'', Arr (map Str (csv_cells header))),
          (js ''dtypes'',
           Obj (fromEntries
             (map (\<lambda>(idx, column).
                     (column, Str (inferCsvValueType
                        (first_non_blank (map (\<lambda>line. cell (csv_cells line) idx) data)))))
                  (enumerate 0 (csv_cells header))))),
          (js ''sample'',
           Arr (map Obj
             (map (\<lambda>line. fromEntries
                     (map (\<lambda>(idx, column). (column, Str (cell (csv_cells line) idx)))
                          (enumerate 0 (csv_cells header))))
                  (take 3 data))))]"
proof -
  have l: "filter (\<lambda>line. 0 < length line) (map trim (regex_split re_newline csv)) = header # data"
    using assms by (simp add: csv_lines_def)
  show ?thesis
    unfolding csvStructure_def l Let_def
    by (simp add: csv_cells_def [abs_def] find_first_non_blank find_first_non_blank' comp_def
        take_map)
qed


lemma csv_small:
  "csv_lines (js ''n,ok\<newline>-1,TRUE'') = [js ''n,ok'', js ''-1,TRUE'']"
  "csvStructure (js ''n,ok\<newline>-1,TRUE'') =
     Obj [(js ''rows'', Number 1), (js ''columns'', Arr [Str (js ''n''), Str (js ''ok'')]),
          (js ''dtypes'', Obj [(js ''n'', Str (js ''int64'')), (js ''ok'', Str (js ''bool''))]),
          (js ''sample'', Arr [Obj [(js ''n'', Str (js ''-1'')), (js ''ok'', Str (js ''TRUE''))]])]"
  "trim (js '' -1 '') = js ''-1''"
  by code_simp+

lemma csv_duplicate:
  "csvStructure (js ''a,a\<newline>1,x'') =
     Obj [(js ''rows'', Number 1), (js ''columns'', Arr [Str (js ''a''), Str (js ''a'')]),
          (js ''dtypes'', Obj [(js ''a'', Str (js ''string''))]),
          (js ''sample'', Arr [Obj [(js ''a'', Str (js ''x''))]])]"
  "inferCsvValueType (js ''1'') = js ''int64''"
  by code_simp+


subsection \<open>The preview fallback path and its decoding\<close>

lemma code_points_ascii:
  "list_all ascii s \<Longrightarrow> code_points s = map (\<lambda>c. Some (unat c)) s"
proof (induction s rule: code_points.induct)
  case 1
  show ?case by simp
next
  case (2 c)
  then show ?case
    by (simp add: ascii_def is_high_surrogate_def is_low_surrogate_def word_le_nat_alt)
next
  case (3 c d cs)
  then show ?case
    by (simp add: ascii_def is_high_surrogate_def is_low_surrogate_def word_le_nat_alt)
qed

lemma concat_map_cong:
  "(\<And>x. x \<in> set s \<Longrightarrow> f x = g x) \<Longrightarrow> concat (map f s) = concat (map g s)"
  by (induction s) simp_all

lemma concat_singletons: "concat (map (\<lambda>c. [c]) s) = s"
  by (induction s) simp_all

lemma percent_encode_id:
  assumes "list_all (\<lambda>c. ascii c \<and> \<not> S (unat c)) s"
  shows "percent_encode S s = s"
proof -
  have a: "list_all ascii s" using assms by (simp add: list_all_iff)
  have "percent_encode S s = concat (map (\<lambda>c. [c]) s)"
    unfolding percent_encode_def code_points_ascii [OF a] map_map
    by (rule concat_map_cong) (use assms in \<open>auto simp: list_all_iff Let_def\<close>)
  then show ?thesis by (simp add: concat_singletons)
qed

lemma encodeURIComponent_ascii:
  assumes "list_all ascii s"
  shows "encodeURIComponent s = Inr (concat (map escape_unit s))"
proof -
  have n: "None \<notin> set (code_points s)"
    by (auto simp: code_points_ascii [OF assms])
  have "concat (map (\<lambda>p. case p of None \<Rightarrow> []
                           | Some cp \<Rightarrow> if uri_unreserved cp then [of_nat cp]
                                       else concat (map percent_byte (utf8 cp)))
                    (code_points s)) = concat (map escape_unit s)"
    unfolding code_points_ascii [OF assms] map_map
    by (rule concat_map_cong)
       (use assms in \<open>auto simp: list_all_iff escape_unit_def ascii_def utf8_def\<close>)
  then show ?thesis using n by (simp add: encodeURIComponent_def)
qed

lemma hex_digit_cases:
  assumes "d < 16"
  shows "hex_digit d \<in> {0x30, 0x31, 0x32, 0x33, 0x34, 0x35, 0x36, 0x37, 0x38, 0x39,
                          0x41, 0x42, 0x43, 0x44, 0x45, 0x46} \<and> unhex (hex_digit d) = Some d"
proof -
  from assms have "d = 0 \<or> d = 1 \<or> d = 2 \<or> d = 3 \<or> d = 4 \<or> d = 5 \<or> d = 6 \<or> d = 7
      \<or> d = 8 \<or> d = 9 \<or> d = 10 \<or> d = 11 \<or> d = 12 \<or> d = 13 \<or> d = 14 \<or> d = 15"
    by arith
  then show ?thesis
    by (elim disjE) (simp_all add: hex_digit_def unhex_def)
qed

lemma hex2_percent:
  assumes "b < 0x80"
  shows "hex2 (hex_digit (b div 16) # hex_digit (b mod 16) # r) = Some b"
proof -
  have "b div 16 < 16" "b mod 16 < 16" using assms by auto
  then have "unhex (hex_digit (b div 16)) = Some (b div 16)"
    "unhex (hex_digit (b mod 16)) = Some (b mod 16)"
    using hex_digit_cases by blast+
  then show ?thesis by (simp add: hex2_def)
qed

lemma unreserved_not_percent: "uri_unreserved (unat c) \<Longrightarrow> c \<noteq> (0x25 :: jschar)"
  by (auto simp: uri_unreserved_def)

lemma decode_escape_unit:
  assumes "ascii c"
  shows "decode_uri (escape_unit c @ r) = map_option (\<lambda>x. c # x) (decode_uri r)"
proof (cases "uri_unreserved (unat c)")
  case True
  then show ?thesis using unreserved_not_percent [OF True] by (simp add: escape_unit_def)
next
  case False
  have b: "unat c < 0x80" using assms by (simp add: ascii_def)
  show ?thesis
    using False b by (simp add: escape_unit_def percent_byte_def hex2_percent)
qed

lemma decode_encoded:
  "list_all ascii s \<Longrightarrow> decode_uri (concat (map escape_unit s)) = Some s"
  by (induction s) (simp_all add: decode_escape_unit)

lemma strip_id:
  "list_all (\<lambda>c. c \<noteq> 0x9 \<and> c \<noteq> 0xA \<and> c \<noteq> 0xD) s \<Longrightarrow> strip_tab_newline s = s"
  by (induction s) (auto simp: strip_tab_newline_def)

lemma path_char_ascii: "path_char c \<Longrightarrow> ascii c \<and> \<not> path_set (unat c)"
  by (auto simp: path_char_def ascii_def path_set_def query_set_def c0_control_set_def)

lemma path_char_plain: "path_char c \<Longrightarrow> c \<noteq> 0x9 \<and> c \<noteq> 0xA \<and> c \<noteq> 0xD"
  by (auto simp: path_char_def path_set_def query_set_def c0_control_set_def)

lemma split_when_ne: "split_when P s \<noteq> []"
  by (induction s) (auto split: list.splits)

lemma split_when_cong:
  "(\<And>x. x \<in> set s \<Longrightarrow> P x = Q x) \<Longrightarrow> split_when P s = split_when Q s"
  by (induction s) simp_all

lemma split_when_append:
  "list_all (\<lambda>c. \<not> P c) a \<Longrightarrow> P c \<Longrightarrow> split_when P (a @ c # b) = a # split_when P b"
  by (induction a) (simp_all split: list.splits)

lemma split_when_none: "list_all (\<lambda>c. \<not> P c) a \<Longrightarrow> split_when P a = [a]"
  by (induction a) (simp_all split: list.splits)

lemma join_split_when:
  "(\<And>x. x \<in> set s \<Longrightarrow> P x \<Longrightarrow> x = c) \<Longrightarrow>
     concat (map (\<lambda>seg. c # seg) (split_when P s)) = c # s"
proof (induction s)
  case Nil
  show ?case by simp
next
  case (Cons a s)
  then have ih: "concat (map (\<lambda>seg. c # seg) (split_when P s)) = c # s" by simp
  show ?case
  proof (cases "P a")
    case True
    then have "a = c" using Cons.prems by simp
    then show ?thesis using True ih by simp
  next
    case False
    obtain p ps where s: "split_when P s = p # ps"
      using split_when_ne [of P s] by (cases "split_when P s") auto
    show ?thesis using False ih by (simp add: s)
  qed
qed

lemma set_split_when:
  "seg \<in> set (split_when P s) \<Longrightarrow> set seg \<subseteq> set s"
proof (induction s arbitrary: seg)
  case Nil
  then show ?case by simp
next
  case (Cons a s)
  show ?case
  proof (cases "P a")
    case True
    then show ?thesis using Cons by auto
  next
    case False
    obtain p ps where s: "split_when P s = p # ps"
      using split_when_ne [of P s] by (cases "split_when P s") auto
    have "set p \<subseteq> set s" using Cons.IH [of p] s by simp
    moreover have "x \<in> set ps \<Longrightarrow> set x \<subseteq> set s" for x using Cons.IH [of x] s by simp
    ultimately show ?thesis using Cons.prems False s by auto
  qed
qed

lemma path_state_plain:
  "list_all (\<lambda>seg. list_all path_char seg \<and> no_dot seg) segs \<Longrightarrow>
     path_state acc segs = acc @ segs"
proof (induction segs arbitrary: acc)
  case Nil
  show ?case by simp
next
  case (Cons seg segs)
  have "list_all (\<lambda>c. ascii c \<and> \<not> path_set (unat c)) seg"
    using Cons.prems path_char_ascii by (auto simp: list_all_iff)
  then have e: "percent_encode path_set seg = seg" by (rule percent_encode_id)
  have d: "\<not> is_single_dot seg" "\<not> is_double_dot seg"
    using Cons.prems by (simp_all add: no_dot_def)
  have "path_state (acc @ [seg]) segs = (acc @ [seg]) @ segs"
    using Cons.prems by (intro Cons.IH) simp
  then show ?case by (simp add: e d)
qed

lemma set_pathname_id:
  assumes "path_ok v"
  shows "set_pathname u v = u\<lparr>pathname := v\<rparr>"
proof -
  obtain cs where v: "v = 0x2F # cs" and pc: "list_all path_char cs"
    and nd: "list_all no_dot (split_when (\<lambda>c. c = 0x2F) cs)"
    using assms by (auto simp: path_ok_def split: list.splits)
  let ?sep = "\<lambda>c. c = 0x2F \<or> (is_special (protocol u) \<and> c = 0x5C)"
  have "list_all (\<lambda>c. c \<noteq> 0x9 \<and> c \<noteq> 0xA \<and> c \<noteq> 0xD) v"
    using pc path_char_plain by (auto simp: v list_all_iff)
  then have s: "strip_tab_newline (0x2F # cs) = 0x2F # cs" using strip_id v by simp
  have sw: "split_when ?sep cs = split_when (\<lambda>c. c = 0x2F) cs"
    using pc by (intro split_when_cong) (auto simp: list_all_iff path_char_def)
  have "list_all (\<lambda>seg. list_all path_char seg \<and> no_dot seg) (split_when (\<lambda>c. c = 0x2F) cs)"
    using pc nd set_split_when [of _ "\<lambda>c. c = 0x2F" cs] by (auto simp: list_all_iff)
  then have ps: "path_state [] (split_when (\<lambda>c. c = 0x2F) cs) = split_when (\<lambda>c. c = 0x2F) cs"
    using path_state_plain [of _ "[]"] by simp
  have j: "concat (map (\<lambda>seg. 0x2F # seg) (split_when (\<lambda>c. c = 0x2F) cs)) = 0x2F # cs"
    by (rule join_split_when) simp
  show ?thesis
    unfolding v by (simp add: set_pathname_def s sw ps j Let_def del: path_state.simps)
qed

lemma set_search_id:
  assumes "query_ok (query p)" "is_special (protocol u)"
  shows "set_search u (search p) = u\<lparr>query := (if search p = [] then None else query p)\<rparr>"
proof (cases "search p = []")
  case True
  then show ?thesis by (simp add: set_search_def)
next
  case False
  then obtain q where q: "query p = Some q" "q \<noteq> []" "search p = 0x3F # q"
    by (auto simp: search_def split: option.splits if_splits)
  have a: "list_all (\<lambda>c. ascii c \<and> \<not> special_query_set (unat c)) q"
    using assms(1) q
    by (auto simp: query_ok_def list_all_iff ascii_def special_query_set_def query_set_def
        c0_control_set_def)
  have "list_all (\<lambda>c. c \<noteq> 0x9 \<and> c \<noteq> 0xA \<and> c \<noteq> 0xD) q"
    using assms(1) q
    by (auto simp: query_ok_def list_all_iff special_query_set_def query_set_def
        c0_control_set_def)
  then have s: "strip_tab_newline q = q" by (rule strip_id)
  show ?thesis
    using assms(2) by (simp add: set_search_def q s percent_encode_id [OF a])
qed

lemma hex_digit_path_char:
  assumes "d < 16"
  shows "path_char (hex_digit d) \<and> hex_digit d \<noteq> 0x2F"
proof -
  have "hex_digit d \<in> {0x30, 0x31, 0x32, 0x33, 0x34, 0x35, 0x36, 0x37, 0x38, 0x39,
                          0x41, 0x42, 0x43, 0x44, 0x45, 0x46}"
    using hex_digit_cases [OF assms] by simp
  then show ?thesis
    by (elim insertE emptyE)
       (simp_all add: path_char_def path_set_def query_set_def c0_control_set_def)
qed

lemma escape_unit_chars:
  assumes "ascii c" "x \<in> set (escape_unit c)"
  shows "path_char x \<and> x \<noteq> 0x2F"
proof (cases "uri_unreserved (unat c)")
  case True
  then have "x = c" using assms by (simp add: escape_unit_def)
  then show ?thesis
    using True
    by (auto simp: uri_unreserved_def path_char_def path_set_def query_set_def
        c0_control_set_def)
next
  case False
  have "unat c div 16 < 16" "unat c mod 16 < 16" using assms(1) by (auto simp: ascii_def)
  then have h: "path_char (hex_digit (unat c div 16)) \<and> hex_digit (unat c div 16) \<noteq> 0x2F"
    "path_char (hex_digit (unat c mod 16)) \<and> hex_digit (unat c mod 16) \<noteq> 0x2F"
    using hex_digit_path_char by blast+
  have p: "path_char 0x25"
    by (simp add: path_char_def path_set_def query_set_def c0_control_set_def)
  show ?thesis
    using assms(2) False h p by (auto simp: escape_unit_def percent_byte_def)
qed

lemma enc_chars:
  "list_all ascii s \<Longrightarrow> list_all (\<lambda>x. path_char x \<and> x \<noteq> 0x2F) (concat (map escape_unit s))"
  using escape_unit_chars by (auto simp: list_all_iff)

lemma enc_length: "length s \<le> length (concat (map escape_unit s))"
proof (induction s)
  case Nil
  show ?case by simp
next
  case (Cons c s)
  have "1 \<le> length (escape_unit c)" by (simp add: escape_unit_def percent_byte_def)
  then show ?case using Cons by simp
qed

lemma local_length: "isLocalHostname h \<Longrightarrow> 9 \<le> length h"
  by (auto simp: isLocalHostname_def endsWith_iff js_def)

lemma no_dot_long:
  assumes "6 < length seg"
  shows "no_dot seg"
proof -
  have "map ascii_lower seg \<noteq> js w" if "length w \<le> 6" for w
  proof
    assume "map ascii_lower seg = js w"
    then have "length (map ascii_lower seg) = length (js w)" by simp
    then show False using assms that by (simp add: js_def)
  qed
  then show ?thesis by (simp add: no_dot_def is_single_dot_def is_double_dot_def)
qed

lemma prefix_segment:
  "list_all (\<lambda>x. path_char x \<and> x \<noteq> 0x2F) (js ''__sandbox_preview'')"
  "no_dot (js ''__sandbox_preview'')"
  "path_char 0x2F"
proof -
  show "list_all (\<lambda>x. path_char x \<and> x \<noteq> 0x2F) (js ''__sandbox_preview'')"
    by (simp add: js_def path_char_def path_set_def query_set_def c0_control_set_def)
  show "no_dot (js ''__sandbox_preview'')"
    by (rule no_dot_long) (simp add: js_def)
  show "path_char 0x2F"
    by (simp add: path_char_def path_set_def query_set_def c0_control_set_def)
qed

lemma path_ok_fallback:
  assumes "path_ok p" "list_all (\<lambda>x. path_char x \<and> x \<noteq> 0x2F) E" "6 < length E"
  shows "path_ok (LOCAL_PREVIEW_PROXY_PREFIX @ js ''/'' @ E @ p)"
proof -
  obtain cs where p: "p = 0x2F # cs" and pc: "list_all path_char cs"
    and nd: "list_all no_dot (split_when (\<lambda>c. c = 0x2F) cs)"
    using assms(1) by (auto simp: path_ok_def split: list.splits)
  let ?A = "js ''__sandbox_preview''"
  have w: "LOCAL_PREVIEW_PROXY_PREFIX @ js ''/'' @ E @ p = 0x2F # (?A @ 0x2F # (E @ 0x2F # cs))"
    by (simp add: LOCAL_PREVIEW_PROXY_PREFIX_def p js_def)
  have a: "list_all (\<lambda>c. \<not> c = 0x2F) ?A" "list_all (\<lambda>c. \<not> c = 0x2F) E"
    using prefix_segment(1) assms(2) by (auto simp: list_all_iff)
  have s: "split_when (\<lambda>c. c = 0x2F) (?A @ 0x2F # (E @ 0x2F # cs))
      = ?A # E # split_when (\<lambda>c. c = 0x2F) cs"
    by (simp add: split_when_append [OF a(1)] split_when_append [OF a(2)])
  have c: "list_all path_char (?A @ 0x2F # (E @ 0x2F # cs))"
    using prefix_segment assms(2) pc by (auto simp: list_all_iff)
  show ?thesis
    unfolding w using c nd prefix_segment(2) no_dot_long [OF assms(3)]
    by (simp add: path_ok_def s)
qed

lemma host_scan_plain:
  "list_all (\<lambda>c. \<not> forbidden_host (unat c)) h \<Longrightarrow>
     host_scan sp False (h @ r) = (h @ fst (host_scan sp False r), snd (host_scan sp False r))"
proof (induction h)
  case Nil
  show ?case by simp
next
  case (Cons c h)
  have "\<not> forbidden_host (unat c)" using Cons.prems by simp
  then have c: "c \<noteq> 0x3A" "c \<noteq> 0x2F" "c \<noteq> 0x3F" "c \<noteq> 0x23" "c \<noteq> 0x5C" "c \<noteq> 0x5B"
    "c \<noteq> 0x5D"
    by (auto simp: forbidden_host_def)
  have "host_scan sp False (h @ r) = (h @ fst (host_scan sp False r), snd (host_scan sp False r))"
    using Cons by simp
  then show ?case using c by simp
qed

lemma port_state_value:
  assumes "port_ok p"
  shows "port_state u p = u\<lparr>port := (if p = default_port (protocol u) then [] else p)\<rparr>"
  using assms by (simp add: port_state_def port_ok_def takeWhile_all Let_def)

lemma host_ascii:
  assumes "host_ok h" "p = [] \<or> port_ok p"
  shows "list_all ascii (if p = [] then h else h @ js '':'' @ p)"
proof -
  have h: "list_all ascii h"
    using assms(1) by (auto simp: host_ok_def list_all_iff forbidden_host_def ascii_def)
  have d: "is_digit c \<Longrightarrow> ascii c" for c
    by (auto simp: is_digit_def ascii_def word_le_nat_alt)
  have "list_all ascii p" using assms(2) d by (auto simp: port_ok_def list_all_iff)
  then show ?thesis using h by (simp add: js_def ascii_def)
qed

lemma set_host_value:
  assumes pr: "protocol u = js ''http:'' \<or> protocol u = js ''https:''"
    and h: "host_ok h" "parse_host pf h = Some h"
    and p: "p = [] \<or> port_ok p"
  shows "set_host pf u (if p = [] then h else h @ js '':'' @ p)
    = u\<lparr>hostname := h,
        port := (if p = [] then port u else if p = default_port (protocol u) then [] else p)\<rparr>"
proof -
  have sp: "is_special (protocol u)" "protocol u \<noteq> js ''file:''"
    using pr http_values by auto
  have fh: "list_all (\<lambda>c. \<not> forbidden_host (unat c)) h" and ne: "h \<noteq> []"
    using h(1) by (simp_all add: host_ok_def)
  have ph: "list_all (\<lambda>c. c \<noteq> 0x9 \<and> c \<noteq> 0xA \<and> c \<noteq> 0xD) h"
    using fh by (auto simp: list_all_iff forbidden_host_def)
  show ?thesis
  proof (cases "p = []")
    case True
    have s: "strip_tab_newline h = h" using ph by (rule strip_id)
    have "host_scan True False (h @ []) = (h, None)"
      using host_scan_plain [OF fh, of True "[]"] by simp
    then have hs: "host_scan True False h = (h, None)" by simp
    show ?thesis
      using True sp ne h(2) by (simp add: set_host_def s hs)
  next
    case False
    then have ok: "port_ok p" using p by simp
    have pd: "list_all (\<lambda>c. c \<noteq> 0x9 \<and> c \<noteq> 0xA \<and> c \<noteq> 0xD) p"
      using ok by (auto simp: port_ok_def list_all_iff is_digit_def)
    have "list_all (\<lambda>c. c \<noteq> 0x9 \<and> c \<noteq> 0xA \<and> c \<noteq> 0xD) (h @ js '':'' @ p)"
      using ph pd by (simp add: js_def)
    then have s: "strip_tab_newline (h @ js '':'' @ p) = h @ js '':'' @ p" by (rule strip_id)
    have "host_scan True False (h @ 0x3A # p) = (h, Some p)"
      using host_scan_plain [OF fh, of True "0x3A # p"] by simp
    then have hs: "host_scan True False (h @ js '':'' @ p) = (h, Some p)" by (simp add: js_def)
    show ?thesis
      using False sp ne h(2) by (simp add: set_host_def s hs port_state_value [OF ok])
  qed
qed

lemma host_cases: "host u = (if port u = [] then hostname u else hostname u @ js '':'' @ port u)"
  by (simp add: host_def)

lemma escaped_host:
  assumes w: "parsed_http preview" and l: "isLocalHostname (hostname preview)"
  shows "encodeURIComponent (host preview) = Inr (escaped (host preview))"
    and "decodeURIComponent (escaped (host preview)) = Inr (host preview)"
    and "list_all (\<lambda>x. path_char x \<and> x \<noteq> 0x2F) (escaped (host preview))"
    and "path_ok (LOCAL_PREVIEW_PROXY_PREFIX @ js ''/'' @ escaped (host preview)
                  @ pathname preview)"
proof -
  have hu: "http_url preview" and ho: "host_ok (hostname preview)"
    and po: "path_ok (pathname preview)"
    using w by (simp_all add: parsed_http_def)
  have pp: "port preview = [] \<or> port_ok (port preview)" using hu by (auto simp: http_url_def)
  have ha: "list_all ascii (host preview)"
    unfolding host_cases by (rule host_ascii [OF ho pp])
  show "encodeURIComponent (host preview) = Inr (escaped (host preview))"
    unfolding escaped_def by (rule encodeURIComponent_ascii [OF ha])
  show "decodeURIComponent (escaped (host preview)) = Inr (host preview)"
    by (simp add: escaped_def decodeURIComponent_def decode_encoded [OF ha])
  show ec: "list_all (\<lambda>x. path_char x \<and> x \<noteq> 0x2F) (escaped (host preview))"
    unfolding escaped_def by (rule enc_chars [OF ha])
  have "9 \<le> length (hostname preview)" by (rule local_length [OF l])
  moreover have "length (hostname preview) \<le> length (host preview)" by (simp add: host_def)
  moreover have "length (host preview) \<le> length (escaped (host preview))"
    unfolding escaped_def by (rule enc_length)
  ultimately have el: "6 < length (escaped (host preview))" by simp
  show "path_ok (LOCAL_PREVIEW_PROXY_PREFIX @ js ''/'' @ escaped (host preview)
                  @ pathname preview)"
    by (rule path_ok_fallback [OF po ec el])
qed

lemma fallback_url_value:
  assumes w: "parsed_http preview" and l: "isLocalHostname (hostname preview)"
    and bp: "protocol base = js ''http:'' \<or> protocol base = js ''https:''"
  shows "fallback_url base preview (escaped (host preview))
    = base\<lparr>pathname := LOCAL_PREVIEW_PROXY_PREFIX @ js ''/'' @ escaped (host preview)
                         @ pathname preview,
           query := (if search preview = [] then None else query preview)\<rparr>"
proof -
  let ?path = "LOCAL_PREVIEW_PROXY_PREFIX @ js ''/'' @ escaped (host preview) @ pathname preview"
  have qo: "query_ok (query preview)" using w by (simp add: parsed_http_def)
  have sb: "is_special (protocol base)" using bp http_values by auto
  show ?thesis
    unfolding fallback_url_def Let_def set_pathname_id [OF escaped_host(4) [OF w l]]
    using set_search_id [OF qo, of "base\<lparr>pathname := ?path\<rparr>"] sb by simp
qed

lemma fallback_round_trip:
  assumes r: "new_URL pf requestUrl = Some request"
    and p: "new_URL pf previewUrl = Some preview"
    and b: "new_URL pf (origin request) = Some base"
    and l: "isLocalHostname (hostname request)" "isLocalHostname (hostname preview)"
    and w: "parsed_http preview"
    and bp: "protocol base = js ''http:'' \<or> protocol base = js ''https:''"
    and ph: "parse_host pf (hostname preview) = Some (hostname preview)"
    and fb: "fb = fallback_url base preview (escaped (host preview))"
    and rt: "new_URL pf (href fb) = Some fb"
  shows "buildLocalPreviewFallbackUrl pf previewUrl requestUrl = Inr (Some (href fb))"
    and "startsWith (pathname fb) (LOCAL_PREVIEW_PROXY_PREFIX @ js ''/'')"
    and "localPreviewProxyTarget pf (href fb) fb =
      Inr (Some (host preview, pathname preview,
        fb\<lparr>hostname := hostname preview,
           port := (if port preview = [] then port base
                    else if port preview = default_port (protocol base) then []
                    else port preview),
           pathname := pathname preview\<rparr>))"
    and "search fb = search preview"
proof -
  have hu: "http_url preview" and ho: "host_ok (hostname preview)"
    and po: "path_ok (pathname preview)" and qo: "query_ok (query preview)"
    using w by (simp_all add: parsed_http_def)
  have pp: "port preview = [] \<or> port_ok (port preview)" using hu by (auto simp: http_url_def)
  let ?e = "escaped (host preview)"
  note e = escaped_host(1) [OF w l(2)]
  note de = escaped_host(2) [OF w l(2)]
  note ec = escaped_host(3) [OF w l(2)]
  have sb: "is_special (protocol base)" using bp http_values by auto
  have fbv: "fb = base\<lparr>pathname := LOCAL_PREVIEW_PROXY_PREFIX @ js ''/'' @ ?e @ pathname preview,
      query := (if search preview = [] then None else query preview)\<rparr>"
    unfolding fb by (rule fallback_url_value [OF w l(2) bp])
  show "buildLocalPreviewFallbackUrl pf previewUrl requestUrl = Inr (Some (href fb))"
    using r p b l e by (simp add: buildLocalPreviewFallbackUrl_def fb fallback_url_def Let_def)
  have pn: "pathname fb = (LOCAL_PREVIEW_PROXY_PREFIX @ js ''/'') @ ?e @ pathname preview"
    by (simp add: fbv)
  show sw: "startsWith (pathname fb) (LOCAL_PREVIEW_PROXY_PREFIX @ js ''/'')"
    unfolding pn startsWith_def by simp
  obtain cs where cs: "pathname preview = 0x2F # cs"
    using po by (auto simp: path_ok_def split: list.splits)
  have rest: "drop (length (LOCAL_PREVIEW_PROXY_PREFIX @ js ''/'')) (pathname fb)
      = ?e @ 0x2F # cs"
    unfolding pn cs by simp
  have ns: "\<forall>x\<in>set ?e. x \<noteq> 0x2F" using ec by (auto simp: list_all_iff)
  have tw: "takeWhile (\<lambda>c. c \<noteq> 0x2F) (?e @ 0x2F # cs) = ?e"
    using ns by (simp add: takeWhile_append2)
  have dw: "dropWhile (\<lambda>c. c \<noteq> 0x2F) (?e @ 0x2F # cs) = 0x2F # cs"
    using ns by (simp add: dropWhile_append2)
  have pfb: "protocol fb = js ''http:'' \<or> protocol fb = js ''https:''"
    using bp by (simp add: fbv)
  have sh: "set_host pf fb (host preview)
      = fb\<lparr>hostname := hostname preview,
           port := (if port preview = [] then port fb
                    else if port preview = default_port (protocol fb) then []
                    else port preview)\<rparr>"
    unfolding host_cases by (rule set_host_value [OF pfb ho ph pp])
  let ?t = "fb\<lparr>hostname := hostname preview,
           port := (if port preview = [] then port base
                    else if port preview = default_port (protocol base) then []
                    else port preview)\<rparr>"
  have sh': "set_host pf fb (host preview) = ?t"
    unfolding sh by (simp add: fbv)
  have spn: "set_pathname ?t (0x2F # cs) = ?t\<lparr>pathname := 0x2F # cs\<rparr>"
    using set_pathname_id [OF po, of ?t] by (simp add: cs)
  show sf: "search fb = search preview"
    by (simp add: fbv search_def split: option.splits)
  have st: "is_special (protocol (?t\<lparr>pathname := 0x2F # cs\<rparr>))" using sb by (simp add: fbv)
  have ss: "set_search (?t\<lparr>pathname := 0x2F # cs\<rparr>) (search preview)
      = ?t\<lparr>pathname := 0x2F # cs\<rparr>"
    unfolding set_search_id [OF qo st] by (simp add: fbv)
  show "localPreviewProxyTarget pf (href fb) fb =
      Inr (Some (host preview, pathname preview,
        fb\<lparr>hostname := hostname preview,
           port := (if port preview = [] then port base
                    else if port preview = default_port (protocol base) then []
                    else port preview),
           pathname := pathname preview\<rparr>))"
    unfolding localPreviewProxyTarget_def Let_def rest tw dw de
    using sw rt by (simp add: sh' spn sf ss cs)
qed

lemma escaped_values:
  "escaped (js ''8080-x.localhost:8787'') = js ''8080-x.localhost%3A8787''"
  "escaped (js ''8080-x.localhost'') = js ''8080-x.localhost''"
  by (simp_all add: escaped_def escape_unit_def uri_unreserved_def percent_byte_def
      hex_digit_def js_def)

lemma parsed_http_values:
  "parsed_http (http_record ''http:'' ''8080-x.localhost'' ''8787'' ''/index.html''
       \<lparr>query := Some (js ''v=1'')\<rparr>)"
  "parsed_http (http_record ''http:'' ''8080-x.localhost'' [] ''/index.html'')"
proof -
  have h: "host_ok (js ''8080-x.localhost'')"
    by (simp add: host_ok_def forbidden_host_def js_def)
  have n: "no_dot (js ''index.html'')" by (rule no_dot_long) (simp add: js_def)
  have "split_when (\<lambda>c. c = 0x2F) (js ''index.html'') = [js ''index.html'']"
    by (simp add: js_def)
  moreover have "list_all path_char (js ''index.html'')"
    by (simp add: js_def path_char_def path_set_def query_set_def c0_control_set_def)
  moreover have "js ''/index.html'' = 0x2F # js ''index.html''" by (simp add: js_def)
  ultimately have p: "path_ok (js ''/index.html'')" using n by (simp add: path_ok_def)
  have q: "query_ok (Some (js ''v=1''))" "query_ok None"
    by (simp_all add: query_ok_def js_def special_query_set_def query_set_def c0_control_set_def)
  show "parsed_http (http_record ''http:'' ''8080-x.localhost'' ''8787'' ''/index.html''
       \<lparr>query := Some (js ''v=1'')\<rparr>)"
    using h p q by (simp add: parsed_http_def http_url_def http_record_def port_ok_values
        default_port_values)
  show "parsed_http (http_record ''http:'' ''8080-x.localhost'' [] ''/index.html'')"
    using h p q by (simp add: parsed_http_def http_url_def http_record_def)
qed

section \<open>Claims\<close>

text \<open>
  C1. A host name is a likely preview host name exactly when it begins with one or
  more decimal digits followed directly by \<open>-\<close> and ends with \<open>.localhost\<close>; and the
  \<open>fetch\<close> handler's flag \<open>previewCandidate\<close> holds exactly when that is so for the
  host name of the request URL or for the part of the Host header before its first
  \<open>:\<close> (the empty string when the header is absent).
\<close>

theorem isLikelyPreviewHostname_iff:
  "(isLikelyPreviewHostname h \<longleftrightarrow>
      (\<exists>ds rest. ds \<noteq> [] \<and> list_all is_digit ds \<and> h = ds @ js ''-'' @ rest)
      \<and> (\<exists>p. h = p @ js ''.localhost''))
   \<and> (previewCandidate u header \<longleftrightarrow>
        isLikelyPreviewHostname (hostname u)
        \<or> isLikelyPreviewHostname
             (takeWhile (\<lambda>c. c \<noteq> 0x3A) (case header of None \<Rightarrow> [] | Some v \<Rightarrow> v)))"
proof (rule conjI)
  show "isLikelyPreviewHostname h \<longleftrightarrow>
      (\<exists>ds rest. ds \<noteq> [] \<and> list_all is_digit ds \<and> h = ds @ js ''-'' @ rest)
      \<and> (\<exists>p. h = p @ js ''.localhost'')"
    by (simp add: isLikelyPreviewHostname_def test_digits_dash endsWith_iff)
  show "previewCandidate u header \<longleftrightarrow>
        isLikelyPreviewHostname (hostname u)
        \<or> isLikelyPreviewHostname
             (takeWhile (\<lambda>c. c \<noteq> 0x3A) (case header of None \<Rightarrow> [] | Some v \<Rightarrow> v))"
    by (simp add: previewCandidate_def fst_splitHostAndPort Let_def)
qed

theorem isLikelyPreviewHostname_iff_witness:
  "isLikelyPreviewHostname (js ''8080-x.localhost'')
   \<and> previewCandidate
        \<lparr>protocol = js ''http:'', username = [], password = [], hostname = js ''localhost'',
         port = js ''8787'', pathname = js ''/'', query = None, fragment = None\<rparr>
        (Some (js ''8080-x.localhost:8787''))"
proof -
  let ?u = "\<lparr>protocol = js ''http:'', username = [], password = [], hostname = js ''localhost'',
         port = js ''8787'', pathname = js ''/'', query = None, fragment = None\<rparr>"
  have d: "js ''8080'' \<noteq> [] \<and> list_all is_digit (js ''8080'')
           \<and> js ''8080-x.localhost'' = js ''8080'' @ js ''-'' @ js ''x.localhost''"
    by (simp add: js_def is_digit_def)
  have e: "js ''8080-x.localhost'' = js ''8080-x'' @ js ''.localhost''"
    by (simp add: js_def)
  have t: "takeWhile (\<lambda>c. c \<noteq> 0x3A) (js ''8080-x.localhost:8787'') = js ''8080-x.localhost''"
    by (simp add: js_def)
  have l: "isLikelyPreviewHostname (js ''8080-x.localhost'')"
    using isLikelyPreviewHostname_iff [of "js ''8080-x.localhost''" ?u None] d e by blast
  then show ?thesis
    using isLikelyPreviewHostname_iff [of "[]" ?u "Some (js ''8080-x.localhost:8787'')"] t
    by simp
qed






text \<open>
  C3 (as amended). Let the request URL and the exposed URL parse. If the host name
  of either is not local, \<open>normalizeLocalPreviewUrl\<close> returns the exposed URL
  string unchanged. If both are local and both are \<open>http\<close> or \<open>https\<close> URLs, the
  result is the serialisation of the exposed URL with its protocol set to that of
  the request and its port set to the port of the request when that is not empty;
  when the port of the request is empty, the port of the exposed URL is kept,
  unless it is the default port of the request's protocol, in which case it
  becomes empty. User name, password, host name, path, query and fragment are
  unchanged.
\<close>

theorem normalizeLocalPreviewUrl_frame:
  assumes "new_URL pf requestUrl = Some request" "new_URL pf exposedUrl = Some preview"
  shows "(\<not> (isLocalHostname (hostname request) \<and> isLocalHostname (hostname preview)) \<longrightarrow>
           normalizeLocalPreviewUrl pf exposedUrl requestUrl = Inr exposedUrl)
    \<and> (isLocalHostname (hostname request) \<and> isLocalHostname (hostname preview)
        \<and> http_url request \<and> http_url preview \<longrightarrow>
         normalizeLocalPreviewUrl pf exposedUrl requestUrl =
           Inr (href (preview\<lparr>protocol := protocol request,
                  port := (if port request \<noteq> [] then port request
                           else if port preview = default_port (protocol request) then []
                           else port preview)\<rparr>)))"
  using normalize_not_local [OF assms] normalize_local [OF assms] by blast

theorem normalizeLocalPreviewUrl_frame_witness:
  "normalizeLocalPreviewUrl
     (table_platform
        [(js ''http://localhost:8787/api/examples/interactive-dev'',
          http_record ''http:'' ''localhost'' ''8787'' ''/api/examples/interactive-dev''),
         (js ''https://8080-x.localhost/'', http_record ''https:'' ''8080-x.localhost'' [] ''/''),
         (js ''https://example.com/'', http_record ''https:'' ''example.com'' [] ''/'')])
     (js ''https://8080-x.localhost/'')
     (js ''http://localhost:8787/api/examples/interactive-dev'')
   = Inr (js ''http://8080-x.localhost:8787/'')
   \<and> normalizeLocalPreviewUrl
     (table_platform
        [(js ''http://localhost:8787/api/examples/interactive-dev'',
          http_record ''http:'' ''localhost'' ''8787'' ''/api/examples/interactive-dev''),
         (js ''https://8080-x.localhost/'', http_record ''https:'' ''8080-x.localhost'' [] ''/''),
         (js ''https://example.com/'', http_record ''https:'' ''example.com'' [] ''/'')])
     (js ''https://example.com/'')
     (js ''http://localhost:8787/api/examples/interactive-dev'')
   = Inr (js ''https://example.com/'')"
proof -
  let ?req = "js ''http://localhost:8787/api/examples/interactive-dev''"
  let ?r = "http_record ''http:'' ''localhost'' ''8787'' ''/api/examples/interactive-dev''"
  let ?p = "http_record ''https:'' ''8080-x.localhost'' [] ''/''"
  let ?e = "http_record ''https:'' ''example.com'' [] ''/''"
  let ?pf = "table_platform [(?req, ?r), (js ''https://8080-x.localhost/'', ?p),
     (js ''https://example.com/'', ?e)]"
  have r: "new_URL ?pf ?req = Some ?r"
    and p: "new_URL ?pf (js ''https://8080-x.localhost/'') = Some ?p"
    and e: "new_URL ?pf (js ''https://example.com/'') = Some ?e"
    by (simp_all add: table_platform_def)
  have hr: "http_url ?r" and hp: "http_url ?p"
    by (simp_all add: http_url_def http_record_def port_ok_values default_port_values)
  have l: "isLocalHostname (hostname ?r)" "isLocalHostname (hostname ?p)"
    "\<not> isLocalHostname (hostname ?e)"
    by (simp_all add: http_record_def isLocalHostname_values)
  have 1: "normalizeLocalPreviewUrl ?pf (js ''https://8080-x.localhost/'') ?req
      = Inr (href (?p\<lparr>protocol := js ''http:'', port := js ''8787''\<rparr>))"
    using normalizeLocalPreviewUrl_frame [OF r p] hr hp l by (simp add: http_record_def)
  have 2: "normalizeLocalPreviewUrl ?pf (js ''https://example.com/'') ?req
      = Inr (js ''https://example.com/'')"
    using normalizeLocalPreviewUrl_frame [OF r e] l by simp
  have 3: "href (?p\<lparr>protocol := js ''http:'', port := js ''8787''\<rparr>)
      = js ''http://8080-x.localhost:8787/''"
    by (simp add: href_def host_def http_record_def js_def)
  show ?thesis using 1 2 3 by simp
qed

text \<open>
  C3 as stated fails: with an empty request port the port of the exposed URL can
  still change. The exposed URL \<open>http://x.localhost:443/\<close> and the request URL
  \<open>https://localhost/\<close> (port empty) give \<open>https://x.localhost/\<close>: setting the
  protocol to \<open>https:\<close> drops the port 443, the default of the new scheme.
\<close>

theorem normalizeLocalPreviewUrl_port_dropped:
  "normalizeLocalPreviewUrl
     (table_platform
        [(js ''https://localhost/'', http_record ''https:'' ''localhost'' [] ''/''),
         (js ''http://x.localhost:443/'', http_record ''http:'' ''x.localhost'' ''443'' ''/'')])
     (js ''http://x.localhost:443/'') (js ''https://localhost/'')
   = Inr (js ''https://x.localhost/'')
   \<and> port (http_record ''https:'' ''localhost'' [] ''/'') = []
   \<and> port (http_record ''http:'' ''x.localhost'' ''443'' ''/'') = js ''443''"
proof -
  let ?r = "http_record ''https:'' ''localhost'' [] ''/''"
  let ?p = "http_record ''http:'' ''x.localhost'' ''443'' ''/''"
  let ?pf = "table_platform [(js ''https://localhost/'', ?r), (js ''http://x.localhost:443/'', ?p)]"
  have r: "new_URL ?pf (js ''https://localhost/'') = Some ?r"
    and p: "new_URL ?pf (js ''http://x.localhost:443/'') = Some ?p"
    by (simp_all add: table_platform_def)
  have hr: "http_url ?r" and hp: "http_url ?p"
    by (simp_all add: http_url_def http_record_def port_ok_values default_port_values)
  have l: "isLocalHostname (hostname ?r)" "isLocalHostname (hostname ?p)"
    by (simp_all add: http_record_def isLocalHostname_values)
  have 1: "normalizeLocalPreviewUrl ?pf (js ''http://x.localhost:443/'') (js ''https://localhost/'')
      = Inr (href (?p\<lparr>protocol := js ''https:'', port := []\<rparr>))"
    using normalize_local [OF r p l hr hp] by (simp add: http_record_def default_port_values)
  have 3: "href (?p\<lparr>protocol := js ''https:'', port := []\<rparr>) = js ''https://x.localhost/''"
    by (simp add: href_def host_def http_record_def js_def)
  show ?thesis using 1 3 by (simp add: http_record_def)
qed




text \<open>
  C5 fails on the code for an id that names a property of \<open>Object.prototype\<close>:
  \<open>sessionById['constructor']\<close> is a function, so the lookup is truthy although
  \<open>constructor\<close> is no session id. The request \<open>/api/sessions/constructor\<close> is
  answered with status 200 and no body (the \<open>switch\<close> of \<open>runSession\<close> matches
  nothing and \<open>json(undefined)\<close> is sent), not with 404; the same holds for
  \<open>/api/examples/constructor\<close> when \<open>exampleById\<close> is a plain object, here one
  without own properties.
\<close>

theorem unknown_id_inherited_property:
  "handleSessionRequest pf env
      (http_record ''http:'' ''localhost'' ''8787'' ''/api/sessions/constructor'')
     = json Undefined 200
   \<and> handleExampleRequest pf (env\<lparr>exampleById := []\<rparr>)
      \<lparr>request_method = js ''GET'', request_url = js ''http://localhost:8787/api/examples/constructor'',
       request_json = Inr Undefined\<rparr>
      (http_record ''http:'' ''localhost'' ''8787'' ''/api/examples/constructor'')
     = Inr (json Undefined 200)"
proof
  show "handleSessionRequest pf env
      (http_record ''http:'' ''localhost'' ''8787'' ''/api/sessions/constructor'')
     = json Undefined 200"
    by (simp add: handleSessionRequest_def http_record_def session_id_constructor
        session_lookup_constructor truthy_def runSession_constructor)
  show "handleExampleRequest pf (env\<lparr>exampleById := []\<rparr>)
      \<lparr>request_method = js ''GET'', request_url = js ''http://localhost:8787/api/examples/constructor'',
       request_json = Inr Undefined\<rparr>
      (http_record ''http:'' ''localhost'' ''8787'' ''/api/examples/constructor'')
     = Inr (json Undefined 200)"
    by (simp add: handleExampleRequest_def http_record_def session_id_constructor
        example_lookup_constructor truthy_def runExample_constructor and_then_def)
qed











text \<open>
  C4 (as amended). \<open>buildCsvStructure\<close> returns the JSON encoding of an object. If
  every line of the input (split at \<open>\r?\n\<close>) trims to the empty string, the object
  is \<open>{rows: 0, columns: [], dtypes: {}, sample: []}\<close>. Otherwise, with the trimmed
  non-empty lines: \<open>rows\<close> is their number minus one; \<open>columns\<close> is the first line
  split at commas, each entry trimmed; \<open>sample\<close> holds the first three data lines
  at most, each as an object whose keys are the column names; \<open>dtypes\<close> has the same
  keys. For every column whose name does not occur again later in the header, each
  sample object maps the name to the trimmed cell of that column (\<open>''\<close> when the line
  has no such cell), and \<open>dtypes\<close> maps it to \<open>inferCsvValueType\<close> of the first cell of
  the column that is not blank (\<open>''\<close> when there is none). \<open>inferCsvValueType\<close> gives
  \<open>int64\<close> for an integer form, \<open>float64\<close> for a decimal form, \<open>bool\<close> for a boolean
  form and \<open>string\<close> otherwise, of the trimmed value.
\<close>

theorem buildCsvStructure_shape:
  "buildCsvStructure pf csv = JSON_stringify pf (csvStructure csv)
   \<and> ((\<forall>line\<in>set (regex_split re_newline csv). trim line = []) \<longrightarrow>
        csvStructure csv = Obj [(js ''rows'', Number 0), (js ''columns'', Arr []),
                               (js ''dtypes'', Obj []), (js ''sample'', Arr [])])
   \<and> (csv_lines csv = header # data \<longrightarrow>
        (\<exists>dtypes sample.
           csvStructure csv =
             Obj [(js ''rows'', Number (int (length (csv_lines csv)) - 1)),
                  (js ''columns'', Arr (map Str (csv_cells header))),
                  (js ''dtypes'', Obj dtypes), (js ''sample'', Arr (map Obj sample))]
         \<and> length sample = min 3 (length data)
         \<and> (\<forall>i<length sample. fst ` set (sample ! i) = set (csv_cells header))
         \<and> fst ` set dtypes = set (csv_cells header)
         \<and> (\<forall>j<length (csv_cells header).
               csv_cells header ! j \<notin> set (drop (Suc j) (csv_cells header)) \<longrightarrow>
               (\<forall>i<length sample.
                  map_of (sample ! i) (csv_cells header ! j) = Some (Str (cell (csv_cells (data ! i)) j)))
               \<and> map_of dtypes (csv_cells header ! j)
                   = Some (Str (inferCsvValueType
                        (first_non_blank (map (\<lambda>line. cell (csv_cells line) j) data)))))))
   \<and> inferCsvValueType v =
       (if is_int_form (trim v) then js ''int64''
        else if is_float_form (trim v) then js ''float64''
        else if is_bool_form (trim v) then js ''bool''
        else js ''string'')"
proof (intro conjI impI)
  show "buildCsvStructure pf csv = JSON_stringify pf (csvStructure csv)"
    by (simp add: buildCsvStructure_def)
next
  assume "\<forall>line\<in>set (regex_split re_newline csv). trim line = []"
  then have "csv_lines csv = []" by (simp add: csv_lines_def filter_empty_conv)
  then show "csvStructure csv = Obj [(js ''rows'', Number 0), (js ''columns'', Arr []),
                               (js ''dtypes'', Obj []), (js ''sample'', Arr [])]"
    by (rule csvStructure_empty)
next
  show "inferCsvValueType v =
       (if is_int_form (trim v) then js ''int64''
        else if is_float_form (trim v) then js ''float64''
        else if is_bool_form (trim v) then js ''bool''
        else js ''string'')"
    by (rule inferCsvValueType_forms)
next
  assume l: "csv_lines csv = header # data"
  let ?cols = "csv_cells header"
  let ?dt = "fromEntries
             (map (\<lambda>(idx, column).
                     (column, Str (inferCsvValueType
                        (first_non_blank (map (\<lambda>line. cell (csv_cells line) idx) data)))))
                  (enumerate 0 ?cols))"
  let ?row = "\<lambda>line. fromEntries
                     (map (\<lambda>(idx, column). (column, Str (cell (csv_cells line) idx)))
                          (enumerate 0 ?cols))"
  let ?sample = "map ?row (take 3 data)"
  have s: "csvStructure csv =
             Obj [(js ''rows'', Number (int (length (csv_lines csv)) - 1)),
                  (js ''columns'', Arr (map Str ?cols)),
                  (js ''dtypes'', Obj ?dt), (js ''sample'', Arr (map Obj ?sample))]"
    using csvStructure_rows [OF l] by (simp add: l)
  have len: "length ?sample = min 3 (length data)" by simp
  have keys: "\<forall>i<length ?sample. fst ` set (?sample ! i) = set ?cols"
    by (simp add: dom_fromEntries_columns)
  have dkeys: "fst ` set ?dt = set ?cols" by (rule dom_fromEntries_columns)
  have vals: "\<forall>j<length ?cols. ?cols ! j \<notin> set (drop (Suc j) ?cols) \<longrightarrow>
               (\<forall>i<length ?sample.
                  map_of (?sample ! i) (?cols ! j) = Some (Str (cell (csv_cells (data ! i)) j)))
               \<and> map_of ?dt (?cols ! j)
                   = Some (Str (inferCsvValueType
                        (first_non_blank (map (\<lambda>line. cell (csv_cells line) j) data))))"
  proof (intro allI impI conjI)
    fix j i
    assume j: "j < length ?cols" "?cols ! j \<notin> set (drop (Suc j) ?cols)"
    show "map_of ?dt (?cols ! j)
                   = Some (Str (inferCsvValueType
                        (first_non_blank (map (\<lambda>line. cell (csv_cells line) j) data))))"
      using map_of_rev_last [OF j, of "\<lambda>idx column. Str (inferCsvValueType
                        (first_non_blank (map (\<lambda>line. cell (csv_cells line) idx) data)))" 0]
      by (simp add: map_of_fromEntries)
    assume i: "i < length ?sample"
    then have "?sample ! i = ?row (data ! i)" by simp
    then show "map_of (?sample ! i) (?cols ! j) = Some (Str (cell (csv_cells (data ! i)) j))"
      using map_of_rev_last [OF j, of "\<lambda>idx column. Str (cell (csv_cells (data ! i)) idx)" 0]
      by (simp add: map_of_fromEntries)
  qed
  show "\<exists>dtypes sample.
           csvStructure csv =
             Obj [(js ''rows'', Number (int (length (csv_lines csv)) - 1)),
                  (js ''columns'', Arr (map Str (csv_cells header))),
                  (js ''dtypes'', Obj dtypes), (js ''sample'', Arr (map Obj sample))]
         \<and> length sample = min 3 (length data)
         \<and> (\<forall>i<length sample. fst ` set (sample ! i) = set (csv_cells header))
         \<and> fst ` set dtypes = set (csv_cells header)
         \<and> (\<forall>j<length (csv_cells header).
               csv_cells header ! j \<notin> set (drop (Suc j) (csv_cells header)) \<longrightarrow>
               (\<forall>i<length sample.
                  map_of (sample ! i) (csv_cells header ! j) = Some (Str (cell (csv_cells (data ! i)) j)))
               \<and> map_of dtypes (csv_cells header ! j)
                   = Some (Str (inferCsvValueType
                        (first_non_blank (map (\<lambda>line. cell (csv_cells line) j) data)))))"
    using s len keys dkeys vals by blast
qed

theorem buildCsvStructure_shape_witness:
  "csv_lines (js ''n,ok\<newline>-1,TRUE'') = [js ''n,ok'', js ''-1,TRUE'']
   \<and> csvStructure (js ''n,ok\<newline>-1,TRUE'') =
     Obj [(js ''rows'', Number 1), (js ''columns'', Arr [Str (js ''n''), Str (js ''ok'')]),
          (js ''dtypes'', Obj [(js ''n'', Str (js ''int64'')), (js ''ok'', Str (js ''bool''))]),
          (js ''sample'', Arr [Obj [(js ''n'', Str (js ''-1'')), (js ''ok'', Str (js ''TRUE''))]])]
   \<and> is_int_form (trim (js '' -1 ''))
   \<and> inferCsvValueType (js '' -1 '') = js ''int64''
   \<and> buildCsvStructure (table_platform []) (js ''n,ok\<newline>-1,TRUE'')
       = JSON_stringify (table_platform []) (csvStructure (js ''n,ok\<newline>-1,TRUE''))"
proof -
  have i: "is_int_form (trim (js '' -1 ''))"
    unfolding csv_small(3) is_int_form_def
    by (rule exI [of _ "js ''1''"]) (simp add: js_def is_digit_def)
  show ?thesis
    using buildCsvStructure_shape [of "table_platform []" "js ''n,ok\<newline>-1,TRUE''" "js ''n,ok''" "[js ''-1,TRUE'']"
        "js '' -1 ''"] csv_small i
    by simp
qed


text \<open>
  C4 as stated fails when a column name occurs twice: a later column replaces the
  entry of an earlier one. For the input \<open>a,a\<close> / \<open>1,x\<close> the first column has the
  cell \<open>1\<close>, an integer form, yet \<open>dtypes\<close> maps \<open>a\<close> to \<open>string\<close> and the sample
  object maps \<open>a\<close> to \<open>x\<close>.
\<close>

theorem buildCsvStructure_duplicate_columns:
  "csvStructure (js ''a,a\<newline>1,x'') =
     Obj [(js ''rows'', Number 1), (js ''columns'', Arr [Str (js ''a''), Str (js ''a'')]),
          (js ''dtypes'', Obj [(js ''a'', Str (js ''string''))]),
          (js ''sample'', Arr [Obj [(js ''a'', Str (js ''x''))]])]
   \<and> inferCsvValueType (js ''1'') = js ''int64''"
  using csv_duplicate by simp

text \<open>
  C2 (as amended). Let the preview URL and the request URL parse to \<open>http\<close> or
  \<open>https\<close> URLs with local host names, the preview URL as the parser leaves a URL
  (\<open>parsed_http\<close>), and let \<open>base\<close> be the parse of the request's origin. Then
  \<open>buildLocalPreviewFallbackUrl\<close> returns the serialisation of \<open>fb\<close>, whose path
  starts with \<open>/__sandbox_preview/\<close>; and \<open>handleLocalPreviewProxyRoute\<close>, given that
  URL, decodes the host and the path of the preview URL exactly and builds a proxy
  target with the preview's host name, path and search. The port of the target is
  the preview's port only if that is not empty and not the default port of the
  request's protocol: an empty preview port leaves the port of the request URL in
  place, and a preview port equal to that default becomes empty.
\<close>

theorem fallback_proxy_round_trip:
  assumes "new_URL pf requestUrl = Some request" "new_URL pf previewUrl = Some preview"
    and "isLocalHostname (hostname request)" "isLocalHostname (hostname preview)"
    and "http_url request" "parsed_http preview"
    and "parse_host pf (hostname preview) = Some (hostname preview)"
    and "new_URL pf (origin request) = Some base"
      "protocol base = protocol request" "port base = port request"
    and "fb = fallback_url base preview (escaped (host preview))"
    and "new_URL pf (href fb) = Some fb"
    and "target = fb\<lparr>hostname := hostname preview,
           port := (if port preview = [] then port request
                    else if port preview = default_port (protocol request) then []
                    else port preview),
           pathname := pathname preview\<rparr>"
  shows "buildLocalPreviewFallbackUrl pf previewUrl requestUrl = Inr (Some (href fb))
    \<and> startsWith (pathname fb) (LOCAL_PREVIEW_PROXY_PREFIX @ js ''/'')
    \<and> localPreviewProxyTarget pf (href fb) fb
        = Inr (Some (host preview, pathname preview, target))
    \<and> pathname target = pathname preview \<and> search target = search preview
    \<and> ((if port preview = [] then port request = []
         else port preview \<noteq> default_port (protocol request))
        \<longrightarrow> host target = host preview)"
proof -
  have bp: "protocol base = js ''http:'' \<or> protocol base = js ''https:''"
    using assms(5) assms(9) by (auto simp: http_url_def)
  note rt = fallback_round_trip [OF assms(1) assms(2) assms(8) assms(3) assms(4) assms(6) bp
      assms(7) assms(11) assms(12)]
  have t: "target = fb\<lparr>hostname := hostname preview,
           port := (if port preview = [] then port base
                    else if port preview = default_port (protocol base) then []
                    else port preview),
           pathname := pathname preview\<rparr>"
    by (simp add: assms(13) assms(9) assms(10))
  have s: "search target = search preview"
    using rt(4) by (simp add: assms(13) search_def)
  have h: "(if port preview = [] then port request = []
         else port preview \<noteq> default_port (protocol request))
        \<longrightarrow> host target = host preview"
    by (simp add: assms(13) host_def)
  show ?thesis using rt(1) rt(2) rt(3) s h unfolding t [symmetric] by (simp add: assms(13))
qed

theorem fallback_proxy_round_trip_witness:
  "buildLocalPreviewFallbackUrl
     (table_platform
        [(js ''http://localhost:8787/api/examples/interactive-dev'',
          http_record ''http:'' ''localhost'' ''8787'' ''/api/examples/interactive-dev''),
         (js ''http://8080-x.localhost:8787/index.html?v=1'',
          http_record ''http:'' ''8080-x.localhost'' ''8787'' ''/index.html''
            \<lparr>query := Some (js ''v=1'')\<rparr>),
         (js ''http://localhost:8787'', http_record ''http:'' ''localhost'' ''8787'' ''/''),
         (js ''http://localhost:8787/__sandbox_preview/8080-x.localhost%3A8787/index.html?v=1'',
          http_record ''http:'' ''localhost'' ''8787''
            ''/__sandbox_preview/8080-x.localhost%3A8787/index.html''
            \<lparr>query := Some (js ''v=1'')\<rparr>)])
     (js ''http://8080-x.localhost:8787/index.html?v=1'')
     (js ''http://localhost:8787/api/examples/interactive-dev'')
   = Inr (Some
       (js ''http://localhost:8787/__sandbox_preview/8080-x.localhost%3A8787/index.html?v=1''))
   \<and> localPreviewProxyTarget
     (table_platform
        [(js ''http://localhost:8787/api/examples/interactive-dev'',
          http_record ''http:'' ''localhost'' ''8787'' ''/api/examples/interactive-dev''),
         (js ''http://8080-x.localhost:8787/index.html?v=1'',
          http_record ''http:'' ''8080-x.localhost'' ''8787'' ''/index.html''
            \<lparr>query := Some (js ''v=1'')\<rparr>),
         (js ''http://localhost:8787'', http_record ''http:'' ''localhost'' ''8787'' ''/''),
         (js ''http://localhost:8787/__sandbox_preview/8080-x.localhost%3A8787/index.html?v=1'',
          http_record ''http:'' ''localhost'' ''8787''
            ''/__sandbox_preview/8080-x.localhost%3A8787/index.html''
            \<lparr>query := Some (js ''v=1'')\<rparr>)])
     (js ''http://localhost:8787/__sandbox_preview/8080-x.localhost%3A8787/index.html?v=1'')
     (http_record ''http:'' ''localhost'' ''8787''
        ''/__sandbox_preview/8080-x.localhost%3A8787/index.html''
        \<lparr>query := Some (js ''v=1'')\<rparr>)
   = Inr (Some (js ''8080-x.localhost:8787'', js ''/index.html'',
       http_record ''http:'' ''8080-x.localhost'' ''8787'' ''/index.html''
         \<lparr>query := Some (js ''v=1'')\<rparr>))"
proof -
  let ?req = "js ''http://localhost:8787/api/examples/interactive-dev''"
  let ?prev = "js ''http://8080-x.localhost:8787/index.html?v=1''"
  let ?fall = "js ''http://localhost:8787/__sandbox_preview/8080-x.localhost%3A8787/index.html?v=1''"
  let ?r = "http_record ''http:'' ''localhost'' ''8787'' ''/api/examples/interactive-dev''"
  let ?p = "http_record ''http:'' ''8080-x.localhost'' ''8787'' ''/index.html''
     \<lparr>query := Some (js ''v=1'')\<rparr>"
  let ?b = "http_record ''http:'' ''localhost'' ''8787'' ''/''"
  let ?f = "http_record ''http:'' ''localhost'' ''8787''
     ''/__sandbox_preview/8080-x.localhost%3A8787/index.html'' \<lparr>query := Some (js ''v=1'')\<rparr>"
  let ?pf = "table_platform [(?req, ?r), (?prev, ?p), (js ''http://localhost:8787'', ?b),
     (?fall, ?f)]"
  have o: "origin ?r = js ''http://localhost:8787''"
    by (simp add: origin_def host_def http_record_def is_special_def) (simp add: js_def)
  have hf: "href ?f = ?fall"
    by (simp add: href_def host_def http_record_def) (simp add: js_def)
  have r: "new_URL ?pf ?req = Some ?r" and p: "new_URL ?pf ?prev = Some ?p"
    and b: "new_URL ?pf (origin ?r) = Some ?b" and f: "new_URL ?pf (href ?f) = Some ?f"
    unfolding o hf by (simp_all add: table_platform_def)
  have hr: "http_url ?r"
    by (simp add: http_url_def http_record_def port_ok_values default_port_values)
  have l: "isLocalHostname (hostname ?r)" "isLocalHostname (hostname ?p)"
    by (simp_all add: http_record_def isLocalHostname_values)
  have ph: "parse_host ?pf (hostname ?p) = Some (hostname ?p)"
    by (simp add: table_platform_def)
  have hp: "host ?p = js ''8080-x.localhost:8787''"
    by (simp add: host_def http_record_def) (simp add: js_def)
  have bp: "protocol ?b = js ''http:'' \<or> protocol ?b = js ''https:''"
    by (simp add: http_record_def)
  have v: "?b\<lparr>pathname := LOCAL_PREVIEW_PROXY_PREFIX @ js ''/'' @ escaped (host ?p) @ pathname ?p,
        query := (if search ?p = [] then None else query ?p)\<rparr> = ?f"
    unfolding hp escaped_values
    by (simp add: http_record_def search_def LOCAL_PREVIEW_PROXY_PREFIX_def)
       (simp add: js_def)
  have fv: "?f = fallback_url ?b ?p (escaped (host ?p))"
    unfolding fallback_url_value [OF parsed_http_values(1) l(2) bp] by (rule v [symmetric])
  have t: "http_record ''http:'' ''8080-x.localhost'' ''8787'' ''/index.html''
         \<lparr>query := Some (js ''v=1'')\<rparr>
       = ?f\<lparr>hostname := hostname ?p,
           port := (if port ?p = [] then port ?r
                    else if port ?p = default_port (protocol ?r) then [] else port ?p),
           pathname := pathname ?p\<rparr>"
    by (simp add: http_record_def default_port_values)
  show ?thesis
    using fallback_proxy_round_trip [OF r p l hr parsed_http_values(1) ph b _ _ fv f t]
    unfolding hf hp by (simp add: http_record_def)
qed

text \<open>
  C2 as stated fails for a preview URL without a port when the request URL has
  one. The preview URL \<open>http://8080-x.localhost/index.html\<close> and the request URL
  \<open>http://localhost:8787/api/examples/interactive-dev\<close> give the fallback URL
  \<open>http://localhost:8787/__sandbox_preview/8080-x.localhost/index.html\<close>; the route
  decodes the host \<open>8080-x.localhost\<close>, and assigning it to \<open>host\<close> leaves the port
  8787 of the fallback URL, so the host of the proxy target is
  \<open>8080-x.localhost:8787\<close>, not the host \<open>8080-x.localhost\<close> of the preview URL.
\<close>

theorem fallback_proxy_port_of_request:
  "buildLocalPreviewFallbackUrl
     (table_platform
        [(js ''http://localhost:8787/api/examples/interactive-dev'',
          http_record ''http:'' ''localhost'' ''8787'' ''/api/examples/interactive-dev''),
         (js ''http://8080-x.localhost/index.html'',
          http_record ''http:'' ''8080-x.localhost'' [] ''/index.html''),
         (js ''http://localhost:8787'', http_record ''http:'' ''localhost'' ''8787'' ''/''),
         (js ''http://localhost:8787/__sandbox_preview/8080-x.localhost/index.html'',
          http_record ''http:'' ''localhost'' ''8787''
            ''/__sandbox_preview/8080-x.localhost/index.html'')])
     (js ''http://8080-x.localhost/index.html'')
     (js ''http://localhost:8787/api/examples/interactive-dev'')
   = Inr (Some (js ''http://localhost:8787/__sandbox_preview/8080-x.localhost/index.html''))
   \<and> localPreviewProxyTarget
     (table_platform
        [(js ''http://localhost:8787/api/examples/interactive-dev'',
          http_record ''http:'' ''localhost'' ''8787'' ''/api/examples/interactive-dev''),
         (js ''http://8080-x.localhost/index.html'',
          http_record ''http:'' ''8080-x.localhost'' [] ''/index.html''),
         (js ''http://localhost:8787'', http_record ''http:'' ''localhost'' ''8787'' ''/''),
         (js ''http://localhost:8787/__sandbox_preview/8080-x.localhost/index.html'',
          http_record ''http:'' ''localhost'' ''8787''
            ''/__sandbox_preview/8080-x.localhost/index.html'')])
     (js ''http://localhost:8787/__sandbox_preview/8080-x.localhost/index.html'')
     (http_record ''http:'' ''localhost'' ''8787''
        ''/__sandbox_preview/8080-x.localhost/index.html'')
   = Inr (Some (js ''8080-x.localhost'', js ''/index.html'',
       http_record ''http:'' ''8080-x.localhost'' ''8787'' ''/index.html''))
   \<and> host (http_record ''http:'' ''8080-x.localhost'' ''8787'' ''/index.html'')
       = js ''8080-x.localhost:8787''
   \<and> host (http_record ''http:'' ''8080-x.localhost'' [] ''/index.html'')
       = js ''8080-x.localhost''"
proof -
  let ?req = "js ''http://localhost:8787/api/examples/interactive-dev''"
  let ?prev = "js ''http://8080-x.localhost/index.html''"
  let ?fall = "js ''http://localhost:8787/__sandbox_preview/8080-x.localhost/index.html''"
  let ?r = "http_record ''http:'' ''localhost'' ''8787'' ''/api/examples/interactive-dev''"
  let ?p = "http_record ''http:'' ''8080-x.localhost'' [] ''/index.html''"
  let ?b = "http_record ''http:'' ''localhost'' ''8787'' ''/''"
  let ?f = "http_record ''http:'' ''localhost'' ''8787''
     ''/__sandbox_preview/8080-x.localhost/index.html''"
  let ?pf = "table_platform [(?req, ?r), (?prev, ?p), (js ''http://localhost:8787'', ?b),
     (?fall, ?f)]"
  have o: "origin ?r = js ''http://localhost:8787''"
    by (simp add: origin_def host_def http_record_def is_special_def) (simp add: js_def)
  have hf: "href ?f = ?fall"
    by (simp add: href_def host_def http_record_def) (simp add: js_def)
  have r: "new_URL ?pf ?req = Some ?r" and p: "new_URL ?pf ?prev = Some ?p"
    and b: "new_URL ?pf (origin ?r) = Some ?b" and f: "new_URL ?pf (href ?f) = Some ?f"
    unfolding o hf by (simp_all add: table_platform_def)
  have l: "isLocalHostname (hostname ?r)" "isLocalHostname (hostname ?p)"
    by (simp_all add: http_record_def isLocalHostname_values)
  have ph: "parse_host ?pf (hostname ?p) = Some (hostname ?p)"
    by (simp add: table_platform_def)
  have bp: "protocol ?b = js ''http:'' \<or> protocol ?b = js ''https:''"
    by (simp add: http_record_def)
  have hp: "host ?p = js ''8080-x.localhost''"
    by (simp add: host_def http_record_def)
  have v: "?b\<lparr>pathname := LOCAL_PREVIEW_PROXY_PREFIX @ js ''/'' @ escaped (host ?p) @ pathname ?p,
        query := (if search ?p = [] then None else query ?p)\<rparr> = ?f"
    unfolding hp escaped_values
    by (simp add: http_record_def search_def LOCAL_PREVIEW_PROXY_PREFIX_def)
       (simp add: js_def)
  have fv: "?f = fallback_url ?b ?p (escaped (host ?p))"
    unfolding fallback_url_value [OF parsed_http_values(2) l(2) bp] by (rule v [symmetric])
  note rt = fallback_round_trip [OF r p b l parsed_http_values(2) bp ph fv f]
  have h2: "host (http_record ''http:'' ''8080-x.localhost'' ''8787'' ''/index.html'')
       = js ''8080-x.localhost:8787''"
    by (simp add: host_def http_record_def) (simp add: js_def)
  show ?thesis
    using rt(1) rt(3) h2 unfolding hf hp by (simp add: http_record_def)
qed

end
